theory Spec2Isabelle
  imports Main "HOL-Library.Word"
begin

unbundle bit_operations_syntax

section \<open>Data model of the TFT7735V driver\<close>

text \<open>
  The embedding follows \<^verbatim>\<open>src/src/TFT7735V.cpp\<close>.  The macros and the two message
  structs are those of the header under \<^verbatim>\<open>src/src\<close> (it declares the \<^verbatim>\<open>ST7735_*\<close>
  macros, \<^verbatim>\<open>SRAM_BUFFER_SIZE\<close>, \<^verbatim>\<open>CHUNK_HEIGHT\<close>, \<^verbatim>\<open>MAX_CHUNKS\<close>,
  \<^verbatim>\<open>buffer_state_t\<close>, \<^verbatim>\<open>dirty_rect_t\<close> and \<^verbatim>\<open>display_message_t\<close> that the
  implementation uses).

  \<^item> \<^verbatim>\<open>uint8_t\<close> and \<^verbatim>\<open>uint16_t\<close> are words; where C++ promotes to \<^verbatim>\<open>int\<close> before
    comparing (as in \<^verbatim>\<open>x + w > width\<close>) the model computes on \<open>nat\<close>/\<open>int\<close>, and where
    the result is stored back into a \<^verbatim>\<open>uint16_t\<close> it is converted back to a word.
  \<^item> A heap buffer is a \<open>uint16_t list option\<close>: \<open>None\<close> is \<^verbatim>\<open>nullptr\<close>.
  \<^item> The serial device is a log of the transactions that were transmitted, together
    with the results that \<^verbatim>\<open>spi_device_polling_transmit\<close> is going to return.
\<close>

type_synonym uint8_t = "8 word"
type_synonym uint16_t = "16 word"

definition ST7735_SWRESET :: uint8_t where "ST7735_SWRESET = 0x01"
definition ST7735_SLPOUT :: uint8_t where "ST7735_SLPOUT = 0x11"
definition ST7735_NORON :: uint8_t where "ST7735_NORON = 0x13"
definition ST7735_DISPON :: uint8_t where "ST7735_DISPON = 0x29"
definition ST7735_CASET :: uint8_t where "ST7735_CASET = 0x2A"
definition ST7735_RASET :: uint8_t where "ST7735_RASET = 0x2B"
definition ST7735_RAMWR :: uint8_t where "ST7735_RAMWR = 0x2C"
definition ST7735_COLMOD :: uint8_t where "ST7735_COLMOD = 0x3A"
definition ST7735_MADCTL :: uint8_t where "ST7735_MADCTL = 0x36"

definition ST7735_WIDTH :: nat where "ST7735_WIDTH = 128"
definition ST7735_HEIGHT :: nat where "ST7735_HEIGHT = 160"
definition SRAM_BUFFER_SIZE :: nat where "SRAM_BUFFER_SIZE = 8192"
definition CHUNK_HEIGHT :: nat where
  "CHUNK_HEIGHT = SRAM_BUFFER_SIZE div (ST7735_WIDTH * 2)"
definition MAX_CHUNKS :: nat where
  "MAX_CHUNKS = (ST7735_HEIGHT + CHUNK_HEIGHT - 1) div CHUNK_HEIGHT"

datatype buffer_state_t =
  BUFFER_STATE_RENDERING | BUFFER_STATE_TRANSFERRING | BUFFER_STATE_IDLE

text \<open>The fields \<^verbatim>\<open>x, y, w, h\<close> of \<^verbatim>\<open>dirty_rect_t\<close> are prefixed, so that they do
  not capture the variables of the same names.\<close>

record dirty_rect_t =
  rect_x :: uint16_t
  rect_y :: uint16_t
  rect_w :: uint16_t
  rect_h :: uint16_t
  valid :: bool

record display_message_t =
  chunk_idx :: uint8_t
  is_last_chunk :: bool
  source_buffer_idx :: uint8_t
  use_dirty_rect :: bool
  msg_dirty_rect :: dirty_rect_t

text \<open>One transmitted SPI transaction: a command byte (DC low, \<^verbatim>\<open>write_command\<close>),
  an argument byte (DC high, \<^verbatim>\<open>write_data\<close>), or a pixel buffer (DC high,
  \<^verbatim>\<open>tx_buffer\<close> of 16-bit values, two bytes each).\<close>

datatype spi_transaction =
  Command uint8_t | Data uint8_t | Pixels "uint16_t list"

text \<open>Which of the three PSRAM frame buffers a pointer refers to, and which of the two
  SRAM bounce buffers.\<close>

datatype fb_ref = FB_A | FB_B | FB_C
datatype sram_ref = SRAM_A | SRAM_B

record tft =
  initialized :: bool
  spi_initialized :: bool
  width :: uint16_t
  height :: uint16_t
  x_offset :: uint16_t
  y_offset :: uint16_t
  framebuffer_a :: "uint16_t list option"
  framebuffer_b :: "uint16_t list option"
  framebuffer_c :: "uint16_t list option"
  current_framebuffer :: "fb_ref option"
  buffer_states :: "buffer_state_t list"
  render_buffer_idx :: uint8_t
  transfer_buffer_idx :: uint8_t
  framebuffer_enabled :: bool
  sram_buffer_a :: "uint16_t list option"
  sram_buffer_b :: "uint16_t list option"
  current_sram_buffer :: "sram_ref option"
  display_task_handle :: bool
  display_queue :: "display_message_t list option"
  display_done_semaphore :: "bool option"
  display_in_progress :: bool
  display_done_flag :: bool
  current_chunk :: uint8_t
  total_chunks :: uint8_t
  dirty_rect :: dirty_rect_t
  dirty_rect_enabled :: bool
  force_full_redraw :: bool
  spi_sent :: "spi_transaction list"
  spi_results :: "bool list"

section \<open>Dirty rectangle accumulator\<close>

definition clearDirty :: "tft \<Rightarrow> tft" where
  "clearDirty s =
     s\<lparr>dirty_rect := \<lparr>rect_x = 0, rect_y = 0, rect_w = 0, rect_h = 0, valid = False\<rparr>,
       force_full_redraw := False\<rparr>"

definition forceFullRedraw :: "tft \<Rightarrow> tft" where
  "forceFullRedraw s =
     s\<lparr>force_full_redraw := True, dirty_rect := (dirty_rect s)\<lparr>valid := False\<rparr>\<rparr>"

definition enableDirtyRect :: "bool \<Rightarrow> tft \<Rightarrow> tft" where
  "enableDirtyRect enable s =
     (if enable then clearDirty (s\<lparr>dirty_rect_enabled := True\<rparr>)
      else s\<lparr>dirty_rect_enabled := False\<rparr>)"

text \<open>\<^verbatim>\<open>expand_dirty_rect\<close>: the comparisons \<^verbatim>\<open>x + w > width\<close> and the two
  \<^verbatim>\<open>std::max\<close> are computed in \<^verbatim>\<open>int\<close> (no wrap-around); the results are stored in
  \<^verbatim>\<open>uint16_t\<close> variables.\<close>

definition expand_dirty_rect ::
  "uint16_t \<Rightarrow> uint16_t \<Rightarrow> uint16_t \<Rightarrow> uint16_t \<Rightarrow> tft \<Rightarrow> tft" where
  "expand_dirty_rect x y w h s =
     (if \<not> dirty_rect_enabled s then s
      else if x \<ge> width s \<or> y \<ge> height s then s
      else
        let w1 = (if unat x + unat w > unat (width s) then width s - x else w);
            h1 = (if unat y + unat h > unat (height s) then height s - y else h)
        in if w1 = 0 \<or> h1 = 0 then s
           else if \<not> valid (dirty_rect s) then
             s\<lparr>dirty_rect :=
                 \<lparr>rect_x = x, rect_y = y, rect_w = w1, rect_h = h1, valid = True\<rparr>\<rparr>
           else
             let d = dirty_rect s;
                 x1 = min (rect_x d) x;
                 y1 = min (rect_y d) y;
                 x2 = (word_of_nat (max (unat (rect_x d) + unat (rect_w d))
                                        (unat x + unat w1)) :: uint16_t);
                 y2 = (word_of_nat (max (unat (rect_y d) + unat (rect_h d))
                                        (unat y + unat h1)) :: uint16_t)
             in s\<lparr>dirty_rect :=
                    d\<lparr>rect_x := x1, rect_y := y1, rect_w := x2 - x1, rect_h := y2 - y1\<rparr>\<rparr>)"

text \<open>A sequence of dirty-mark calls, in call order.\<close>

fun mark_all :: "(uint16_t \<times> uint16_t \<times> uint16_t \<times> uint16_t) list \<Rightarrow> tft \<Rightarrow> tft" where
  "mark_all [] s = s"
| "mark_all ((x, y, w, h) # rs) s = mark_all rs (expand_dirty_rect x y w h s)"

section \<open>Serial device and address window\<close>

text \<open>\<^verbatim>\<open>spi_device_polling_transmit\<close>: the next scripted result decides whether the
  transaction succeeds (an exhausted script means \<^verbatim>\<open>ESP_OK\<close>); only a successful
  transaction is appended to the log.\<close>

definition spi_device_polling_transmit :: "spi_transaction \<Rightarrow> tft \<Rightarrow> bool \<times> tft" where
  "spi_device_polling_transmit t s =
     (case spi_results s of
        [] \<Rightarrow> (True, s\<lparr>spi_sent := spi_sent s @ [t]\<rparr>)
      | ok # rest \<Rightarrow>
          (ok, s\<lparr>spi_sent := (if ok then spi_sent s @ [t] else spi_sent s),
                 spi_results := rest\<rparr>))"

text \<open>\<^verbatim>\<open>write_command\<close> and \<^verbatim>\<open>write_data\<close> log a failure and carry on.\<close>

definition write_command :: "uint8_t \<Rightarrow> tft \<Rightarrow> tft" where
  "write_command cmd s = snd (spi_device_polling_transmit (Command cmd) s)"

definition write_data :: "uint8_t \<Rightarrow> tft \<Rightarrow> tft" where
  "write_data d s = snd (spi_device_polling_transmit (Data d) s)"

definition offset_of :: "uint16_t \<Rightarrow> uint16_t" where
  "offset_of off = (if 0 \<le> sint off then off else 0)"

text \<open>A sequence of statements, executed in the order written.\<close>

definition in_order :: "(tft \<Rightarrow> tft) list \<Rightarrow> tft \<Rightarrow> tft" where
  "in_order stmts s = fold (\<lambda>stmt. stmt) stmts s"

definition set_addr_window ::
  "uint16_t \<Rightarrow> uint16_t \<Rightarrow> uint16_t \<Rightarrow> uint16_t \<Rightarrow> tft \<Rightarrow> tft" where
  "set_addr_window x0 y0 x1 y1 s =
     (let sx0 = x0 + offset_of (x_offset s);
          sy0 = y0 + offset_of (y_offset s);
          sx1 = x1 + offset_of (x_offset s);
          sy1 = y1 + offset_of (y_offset s)
      in in_order
           [write_command ST7735_CASET,
            write_data (ucast (drop_bit 8 sx0)), write_data (ucast sx0),
            write_data (ucast (drop_bit 8 sx1)), write_data (ucast sx1),
            write_command ST7735_RASET,
            write_data (ucast (drop_bit 8 sy0)), write_data (ucast sy0),
            write_data (ucast (drop_bit 8 sy1)), write_data (ucast sy1),
            write_command ST7735_RAMWR] s)"

section \<open>Chunk transfer\<close>

definition bswap16 :: "uint16_t \<Rightarrow> uint16_t" where
  "bswap16 v = push_bit 8 v OR drop_bit 8 v"

text \<open>The in-place loop \<^verbatim>\<open>for (i < n) p[off + i] = __builtin_bswap16(p[off + i])\<close>.\<close>

definition bswap_region :: "nat \<Rightarrow> nat \<Rightarrow> uint16_t list \<Rightarrow> uint16_t list" where
  "bswap_region off n buf =
     take off buf @ map bswap16 (take n (drop off buf)) @ drop (off + n) buf"

text \<open>\<^verbatim>\<open>memcpy(dst, src + off, n * sizeof(uint16_t))\<close>.  The model is exact when the
  copy is in bounds (\<open>off + n \<le> length src\<close> and \<open>n \<le> length dst\<close>); out of bounds the C++
  is undefined, and the theorems below assume buffers of the allocated sizes.\<close>

definition memcpy :: "uint16_t list \<Rightarrow> uint16_t list \<Rightarrow> nat \<Rightarrow> nat \<Rightarrow> uint16_t list" where
  "memcpy dst src off n = take n (drop off src) @ drop n dst"

definition spi_chunk_size :: nat where
  "spi_chunk_size = 2048"

text \<open>The transmit loop of \<^verbatim>\<open>send_chunk_to_display\<close>; it returns the bounce buffer
  as the loop leaves it.  On a transmit error it returns at once.\<close>

function send_chunk_loop ::
  "nat \<Rightarrow> nat \<Rightarrow> uint16_t list \<Rightarrow> tft \<Rightarrow> uint16_t list \<times> tft" where
  "send_chunk_loop total_pixels pixel_offset buffer s =
     (if pixel_offset < total_pixels then
        let current_pixels =
              (if total_pixels - pixel_offset > spi_chunk_size then spi_chunk_size
               else total_pixels - pixel_offset);
            swapped = bswap_region pixel_offset current_pixels buffer;
            r = spi_device_polling_transmit
                  (Pixels (take current_pixels (drop pixel_offset swapped))) s
        in if \<not> fst r then (swapped, snd r)
           else send_chunk_loop total_pixels (pixel_offset + spi_chunk_size)
                  (bswap_region pixel_offset current_pixels swapped) (snd r)
      else (buffer, s))"
  by pat_completeness auto
termination
  by (relation "measure (\<lambda>(total_pixels, pixel_offset, buffer, s). total_pixels - pixel_offset)")
     (auto simp: spi_chunk_size_def)

declare send_chunk_loop.simps [simp del]

definition send_chunk_to_display ::
  "uint16_t list \<Rightarrow> uint16_t \<Rightarrow> uint16_t \<Rightarrow> tft \<Rightarrow> uint16_t list \<times> tft" where
  "send_chunk_to_display buffer chunk chunk_height s =
     (if \<not> initialized s then (buffer, s)
      else
        let chunk_start_y = chunk * word_of_nat CHUNK_HEIGHT;
            s1 = set_addr_window 0 chunk_start_y (width s - 1)
                   (chunk_start_y + chunk_height - 1) s;
            total_pixels = unat (width s) * unat chunk_height
        in send_chunk_loop total_pixels 0 buffer s1)"

text \<open>The bounce buffer that chunk \<open>k\<close> uses.\<close>

definition target_buffer :: "uint8_t \<Rightarrow> sram_ref" where
  "target_buffer chunk = (if unat chunk mod 2 = 0 then SRAM_A else SRAM_B)"

definition sram_get :: "sram_ref \<Rightarrow> tft \<Rightarrow> uint16_t list option" where
  "sram_get r s = (case r of SRAM_A \<Rightarrow> sram_buffer_a s | SRAM_B \<Rightarrow> sram_buffer_b s)"

definition sram_set :: "sram_ref \<Rightarrow> uint16_t list \<Rightarrow> tft \<Rightarrow> tft" where
  "sram_set r buf s =
     (case r of SRAM_A \<Rightarrow> s\<lparr>sram_buffer_a := Some buf\<rparr>
              | SRAM_B \<Rightarrow> s\<lparr>sram_buffer_b := Some buf\<rparr>)"

text \<open>The \<^verbatim>\<open>switch (source_buffer_idx)\<close>: \<open>None\<close> for an invalid index as well as
  for a null frame buffer (both return before any effect).  A null bounce buffer is
  treated the same way (the C++ would hand it to \<^verbatim>\<open>memcpy\<close>; \<^verbatim>\<open>begin\<close> allocates both
  bounce buffers before the worker exists).\<close>

definition source_framebuffer :: "uint8_t \<Rightarrow> tft \<Rightarrow> uint16_t list option" where
  "source_framebuffer idx s =
     (if idx = 0 then framebuffer_a s
      else if idx = 1 then framebuffer_b s
      else if idx = 2 then framebuffer_c s
      else None)"

text \<open>Row range of a chunk: \<^verbatim>\<open>chunk_start_y\<close>, \<^verbatim>\<open>chunk_end_y\<close> (clamped to the
  height) as \<^verbatim>\<open>uint16_t\<close>.\<close>

definition chunk_start_y :: "uint8_t \<Rightarrow> uint16_t" where
  "chunk_start_y chunk = ucast chunk * word_of_nat CHUNK_HEIGHT"

definition chunk_end_y :: "uint8_t \<Rightarrow> tft \<Rightarrow> uint16_t" where
  "chunk_end_y chunk s =
     (let e = (ucast chunk + 1) * word_of_nat CHUNK_HEIGHT
      in if e > height s then height s else e)"

definition copy_chunk_and_send :: "uint8_t \<Rightarrow> uint8_t \<Rightarrow> tft \<Rightarrow> tft" where
  "copy_chunk_and_send chunk src_idx s =
     (if \<not> initialized s then s
      else case source_framebuffer src_idx s of
        None \<Rightarrow> s
      | Some src \<Rightarrow>
          let actual_chunk_height = chunk_end_y chunk s - chunk_start_y chunk;
              chunk_size_pixels = unat (width s) * unat actual_chunk_height
          in case sram_get (target_buffer chunk) s of
               None \<Rightarrow> s
             | Some dst \<Rightarrow>
                 let copied = memcpy dst src (unat (chunk_start_y chunk) * unat (width s))
                                chunk_size_pixels;
                     r = send_chunk_to_display copied (ucast chunk) actual_chunk_height
                           (sram_set (target_buffer chunk) copied s)
                 in sram_set (target_buffer chunk) (fst r) (snd r))"

text \<open>The row loop of \<^verbatim>\<open>send_dirty_chunk_to_display\<close>: each dirty row is swapped,
  transmitted as one transaction and swapped back, also when the transmit fails.\<close>

function send_dirty_rows ::
  "nat \<Rightarrow> nat \<Rightarrow> nat \<Rightarrow> nat \<Rightarrow> nat \<Rightarrow> nat \<Rightarrow> uint16_t list \<Rightarrow> tft \<Rightarrow> uint16_t list \<times> tft" where
  "send_dirty_rows dirty_height dirty_offset_y wd dirty_x dirty_w row buffer s =
     (if row < dirty_height then
        let line_start = (dirty_offset_y + row) * wd + dirty_x;
            swapped = bswap_region line_start dirty_w buffer;
            r = spi_device_polling_transmit
                  (Pixels (take dirty_w (drop line_start swapped))) s
        in if \<not> fst r then (bswap_region line_start dirty_w swapped, snd r)
           else send_dirty_rows dirty_height dirty_offset_y wd dirty_x dirty_w (row + 1)
                  (bswap_region line_start dirty_w swapped) (snd r)
      else (buffer, s))"
  by pat_completeness auto
termination
  by (relation "measure (\<lambda>(dirty_height, dirty_offset_y, wd, dirty_x, dirty_w, row, buffer, s).
                            dirty_height - row)") auto

declare send_dirty_rows.simps [simp del]

definition send_dirty_chunk_to_display ::
  "uint16_t list \<Rightarrow> uint16_t \<Rightarrow> uint16_t \<Rightarrow> dirty_rect_t \<Rightarrow> tft \<Rightarrow> uint16_t list \<times> tft" where
  "send_dirty_chunk_to_display buffer chunk chunk_height d s =
     (if \<not> initialized s then (buffer, s)
      else
        let start_y = chunk * word_of_nat CHUNK_HEIGHT;
            dirty_start_y = max (rect_y d) start_y;
            dirty_end_y = min (rect_y d + rect_h d) (start_y + chunk_height)
        in if dirty_start_y \<ge> dirty_end_y then (buffer, s)
           else
             let dirty_height = dirty_end_y - dirty_start_y;
                 dirty_x = rect_x d;
                 dirty_w = rect_w d;
                 s1 = set_addr_window dirty_x dirty_start_y (dirty_x + dirty_w - 1)
                        (dirty_start_y + dirty_height - 1) s;
                 dirty_offset_y = dirty_start_y - start_y
             in send_dirty_rows (unat dirty_height) (unat dirty_offset_y) (unat (width s))
                  (unat dirty_x) (unat dirty_w) 0 buffer s1)"

definition copy_dirty_chunk_and_send ::
  "uint8_t \<Rightarrow> uint8_t \<Rightarrow> dirty_rect_t \<Rightarrow> tft \<Rightarrow> tft" where
  "copy_dirty_chunk_and_send chunk src_idx d s =
     (if \<not> initialized s then s
      else case source_framebuffer src_idx s of
        None \<Rightarrow> s
      | Some src \<Rightarrow>
          let actual_chunk_height = chunk_end_y chunk s - chunk_start_y chunk;
              dirty_start_y = max (rect_y d) (chunk_start_y chunk);
              dirty_end_y = min (rect_y d + rect_h d) (chunk_end_y chunk s)
          in if dirty_start_y \<ge> dirty_end_y then s
             else
               let chunk_size_pixels = unat (width s) * unat actual_chunk_height
               in case sram_get (target_buffer chunk) s of
                    None \<Rightarrow> s
                  | Some dst \<Rightarrow>
                      let copied = memcpy dst src (unat (chunk_start_y chunk) * unat (width s))
                                     chunk_size_pixels;
                          r = send_dirty_chunk_to_display copied (ucast chunk)
                                actual_chunk_height d
                                (sram_set (target_buffer chunk) copied s)
                      in sram_set (target_buffer chunk) (fst r) (snd r))"

section \<open>Present coordinator and transfer worker\<close>

text \<open>The FreeRTOS primitives: a queue of depth 10 (\<^verbatim>\<open>xQueueCreate(10, ...)\<close>) and a
  binary semaphore (\<open>Some True\<close>: available).  \<^verbatim>\<open>xQueueSend\<close> and
  \<^verbatim>\<open>xSemaphoreTake\<close> are called with a zero timeout.\<close>

definition queue_depth :: nat where
  "queue_depth = 10"

definition xQueueSend :: "display_message_t \<Rightarrow> tft \<Rightarrow> bool \<times> tft" where
  "xQueueSend msg s =
     (case display_queue s of
        None \<Rightarrow> (False, s)
      | Some q \<Rightarrow>
          if length q < queue_depth then (True, s\<lparr>display_queue := Some (q @ [msg])\<rparr>)
          else (False, s))"

definition xSemaphoreTake :: "tft \<Rightarrow> tft" where
  "xSemaphoreTake s =
     (case display_done_semaphore s of
        None \<Rightarrow> s
      | Some b \<Rightarrow> s\<lparr>display_done_semaphore := Some False\<rparr>)"

definition xSemaphoreGive :: "tft \<Rightarrow> tft" where
  "xSemaphoreGive s =
     (case display_done_semaphore s of
        None \<Rightarrow> s
      | Some b \<Rightarrow> s\<lparr>display_done_semaphore := Some True\<rparr>)"

text \<open>The search loop \<^verbatim>\<open>for (i = 0; i < 3; i++) if (buffer_states[i] == IDLE) ...\<close>,
  with 255 for "none found".\<close>

definition find_idle_buffer :: "buffer_state_t list \<Rightarrow> uint8_t" where
  "find_idle_buffer bs =
     (if bs ! 0 = BUFFER_STATE_IDLE then 0
      else if bs ! 1 = BUFFER_STATE_IDLE then 1
      else if bs ! 2 = BUFFER_STATE_IDLE then 2
      else 255)"

text \<open>The \<^verbatim>\<open>switch (render_buffer_idx)\<close> that redirects the drawing pointer.\<close>

definition select_framebuffer :: "uint8_t \<Rightarrow> tft \<Rightarrow> tft" where
  "select_framebuffer idx s =
     (if idx = 0 then s\<lparr>current_framebuffer := map_option (\<lambda>_. FB_A) (framebuffer_a s)\<rparr>
      else if idx = 1 then s\<lparr>current_framebuffer := map_option (\<lambda>_. FB_B) (framebuffer_b s)\<rparr>
      else if idx = 2 then s\<lparr>current_framebuffer := map_option (\<lambda>_. FB_C) (framebuffer_c s)\<rparr>
      else s)"

text \<open>C++ integer division truncates towards zero.\<close>

definition c_div :: "int \<Rightarrow> int \<Rightarrow> int" where
  "c_div a b = (if a < 0 then - ((- a) div b) else a div b)"

text \<open>\<^verbatim>\<open>calculate_dirty_chunks\<close> returns the number of affected chunks and, through
  its reference parameters, the first and the last chunk.\<close>

definition calculate_dirty_chunks :: "dirty_rect_t \<Rightarrow> tft \<Rightarrow> uint8_t \<times> uint8_t \<times> uint8_t" where
  "calculate_dirty_chunks d s =
     (if \<not> valid d then (total_chunks s, 0, total_chunks s - 1)
      else
        let start0 = (word_of_nat (unat (rect_y d) div CHUNK_HEIGHT) :: uint8_t);
            end0 = (word_of_int (c_div (uint (rect_y d) + uint (rect_h d) - 1)
                                       (int CHUNK_HEIGHT)) :: uint8_t);
            start_chunk = (if start0 \<ge> total_chunks s then total_chunks s - 1 else start0);
            end_chunk = (if end0 \<ge> total_chunks s then total_chunks s - 1 else end0)
        in (end_chunk - start_chunk + 1, start_chunk, end_chunk))"

text \<open>\<^verbatim>\<open>display()\<close> returns \<^verbatim>\<open>void\<close>; the result names the exit that was taken.
  \<open>BUSY\<close> is the exit "No idle buffer available for swap".\<close>

datatype display_result =
  STARTED | FRAMEBUFFER_NOT_ENABLED | NOT_INITIALIZED | IN_PROGRESS | NO_QUEUE | BUSY
  | QUEUE_SEND_FAILED

text \<open>The buffer swap of \<^verbatim>\<open>display()\<close>: the render buffer becomes the transfer
  source, the idle buffer \<open>next_render_idx\<close> becomes the render target, the present is
  marked as in progress and the completion semaphore is taken.\<close>

definition swap_for_present :: "uint8_t \<Rightarrow> tft \<Rightarrow> tft" where
  "swap_for_present next_render_idx s =
     (let s1 = s\<lparr>buffer_states :=
                  (buffer_states s)[unat (render_buffer_idx s) := BUFFER_STATE_TRANSFERRING],
                transfer_buffer_idx := render_buffer_idx s\<rparr>;
          s2 = s1\<lparr>render_buffer_idx := next_render_idx,
                  buffer_states :=
                    (buffer_states s1)[unat next_render_idx := BUFFER_STATE_RENDERING]\<rparr>;
          s3 = select_framebuffer next_render_idx s2
      in xSemaphoreTake
           (s3\<lparr>display_in_progress := True, display_done_flag := False,
               current_chunk := 0\<rparr>))"

text \<open>The first message of a present, as \<^verbatim>\<open>display()\<close> builds it after the swap.\<close>

definition use_dirty :: "tft \<Rightarrow> bool" where
  "use_dirty s = (dirty_rect_enabled s \<and> valid (dirty_rect s) \<and> \<not> force_full_redraw s)"

definition first_message :: "tft \<Rightarrow> display_message_t" where
  "first_message s =
     (let plan = (if use_dirty s then calculate_dirty_chunks (dirty_rect s) s
                  else (total_chunks s, 0, total_chunks s - 1))
      in \<lparr>chunk_idx = fst (snd plan),
          is_last_chunk = (fst plan = 1),
          source_buffer_idx = transfer_buffer_idx s,
          use_dirty_rect = use_dirty s,
          msg_dirty_rect =
            (if use_dirty s then dirty_rect s
             else \<lparr>rect_x = 0, rect_y = 0, rect_w = 0, rect_h = 0, valid = False\<rparr>)\<rparr>)"

definition display :: "tft \<Rightarrow> display_result \<times> tft" where
  "display s =
     (if \<not> framebuffer_enabled s \<or> current_framebuffer s = None then (FRAMEBUFFER_NOT_ENABLED, s)
      else if \<not> initialized s then (NOT_INITIALIZED, s)
      else if display_in_progress s then (IN_PROGRESS, s)
      else if display_queue s = None then (NO_QUEUE, s)
      else
        let next_render_idx = find_idle_buffer (buffer_states s)
        in if next_render_idx = 255 then (BUSY, s)
           else
             let s4 = swap_for_present next_render_idx s;
                 r = xQueueSend (first_message s4) s4
             in if \<not> fst r then
                  (QUEUE_SEND_FAILED,
                   (xSemaphoreGive
                      ((snd r)\<lparr>display_in_progress := False, display_done_flag := True\<rparr>))
                     \<lparr>buffer_states :=
                        (buffer_states (snd r))[unat (transfer_buffer_idx (snd r))
                                                  := BUFFER_STATE_IDLE]\<rparr>)
                else (STARTED, snd r))"

text \<open>The end of a job in \<^verbatim>\<open>display_task\<close>: the source buffer becomes idle, the dirty
  rectangle is cleared, and the completion is signalled.\<close>

definition job_done :: "uint8_t \<Rightarrow> tft \<Rightarrow> tft" where
  "job_done src_idx s =
     xSemaphoreGive
       ((clearDirty
           (s\<lparr>buffer_states := (buffer_states s)[unat src_idx := BUFFER_STATE_IDLE]\<rparr>))
        \<lparr>display_in_progress := False, display_done_flag := True\<rparr>)"

text \<open>The branch of \<^verbatim>\<open>display_task\<close> taken when the next chunk cannot be queued:
  as \<open>job_done\<close>, but without \<^verbatim>\<open>clearDirty\<close>.\<close>

definition job_aborted :: "uint8_t \<Rightarrow> tft \<Rightarrow> tft" where
  "job_aborted src_idx s =
     xSemaphoreGive
       (s\<lparr>buffer_states := (buffer_states s)[unat src_idx := BUFFER_STATE_IDLE],
          display_in_progress := False, display_done_flag := True\<rparr>)"

text \<open>The first statement of the loop body of \<^verbatim>\<open>display_task\<close>: the chunk of the
  message is copied and sent, in dirty or in full-frame mode.  Neither function returns
  a status, so the worker does not learn of a transmit error.\<close>

definition transfer_chunk :: "display_message_t \<Rightarrow> tft \<Rightarrow> tft" where
  "transfer_chunk msg s =
     (if use_dirty_rect msg \<and> valid (msg_dirty_rect msg) then
        copy_dirty_chunk_and_send (chunk_idx msg) (source_buffer_idx msg) (msg_dirty_rect msg) s
      else copy_chunk_and_send (chunk_idx msg) (source_buffer_idx msg) s)"

text \<open>One iteration of the loop of \<^verbatim>\<open>display_task\<close> on a received message.\<close>

definition process_message :: "display_message_t \<Rightarrow> tft \<Rightarrow> tft" where
  "process_message msg s =
     (let s1 = transfer_chunk msg s
      in if is_last_chunk msg then job_done (source_buffer_idx msg) s1
         else
           let next_chunk_idx = chunk_idx msg + 1;
               is_last =
                 (if use_dirty_rect msg \<and> valid (msg_dirty_rect msg) then
                    next_chunk_idx > snd (snd (calculate_dirty_chunks (msg_dirty_rect msg) s1))
                  else next_chunk_idx \<ge> total_chunks s1)
           in if \<not> is_last then
                let next_msg = \<lparr>chunk_idx = next_chunk_idx, is_last_chunk = is_last,
                                 source_buffer_idx = source_buffer_idx msg,
                                 use_dirty_rect = use_dirty_rect msg,
                                 msg_dirty_rect = msg_dirty_rect msg\<rparr>;
                    r = xQueueSend next_msg s1
                in if \<not> fst r then job_aborted (source_buffer_idx msg) (snd r) else snd r
              else job_done (source_buffer_idx msg) s1)"

text \<open>\<^verbatim>\<open>xQueueReceive(..., portMAX_DELAY)\<close> followed by the loop body; on an empty queue
  the worker stays blocked, which leaves the state as it is.\<close>

definition display_task_step :: "tft \<Rightarrow> tft" where
  "display_task_step s =
     (case display_queue s of
        None \<Rightarrow> s
      | Some [] \<Rightarrow> s
      | Some (msg # rest) \<Rightarrow> process_message msg (s\<lparr>display_queue := Some rest\<rparr>))"

text \<open>\<open>n\<close> iterations of the worker loop.\<close>

fun display_task_run :: "nat \<Rightarrow> tft \<Rightarrow> tft" where
  "display_task_run 0 s = s"
| "display_task_run (Suc n) s = display_task_run n (display_task_step s)"

definition displayDone :: "tft \<Rightarrow> bool" where
  "displayDone s = display_done_flag s"

text \<open>\<^verbatim>\<open>waitForDisplayDone\<close>: while the caller is blocked in
  \<^verbatim>\<open>xSemaphoreTake(..., portMAX_DELAY)\<close> only the worker runs.  The wait returns once the
  semaphore is available; it never returns (\<open>None\<close>) when the semaphore is taken and the
  worker has nothing left to do.\<close>

partial_function (option) wait_for_semaphore :: "tft \<Rightarrow> tft option" where
  "wait_for_semaphore s =
     (if display_done_semaphore s = Some True then Some s
      else if display_queue s = None \<or> display_queue s = Some [] then None
      else wait_for_semaphore (display_task_step s))"

definition waitForDisplayDone :: "tft \<Rightarrow> tft option" where
  "waitForDisplayDone s =
     (if display_done_semaphore s \<noteq> None \<and> display_in_progress s then
        map_option (xSemaphoreGive \<circ> xSemaphoreTake) (wait_for_semaphore s)
      else Some s)"

definition swapBuffers :: "tft \<Rightarrow> tft" where
  "swapBuffers s =
     (if \<not> framebuffer_enabled s then s
      else
        let next_render_idx = find_idle_buffer (buffer_states s)
        in if next_render_idx = 255 then s
           else
             let old_render_idx = render_buffer_idx s;
                 s1 = s\<lparr>render_buffer_idx := next_render_idx,
                        buffer_states :=
                          (buffer_states s)[unat next_render_idx := BUFFER_STATE_RENDERING]\<rparr>;
                 s2 = s1\<lparr>buffer_states :=
                           (buffer_states s1)[unat old_render_idx := BUFFER_STATE_IDLE]\<rparr>
             in select_framebuffer next_render_idx s2)"

section \<open>Construction and \<^verbatim>\<open>begin()\<close>\<close>

text \<open>The constructor leaves the member \<^verbatim>\<open>dirty_rect\<close> uninitialised, so its first value
  is a parameter; the second parameter is the script of the serial device.\<close>

definition TFT7735V_new :: "dirty_rect_t \<Rightarrow> bool list \<Rightarrow> tft" where
  "TFT7735V_new d0 results =
     \<lparr>initialized = False, spi_initialized = False,
      width = word_of_nat ST7735_WIDTH, height = word_of_nat ST7735_HEIGHT,
      x_offset = 0, y_offset = 0,
      framebuffer_a = None, framebuffer_b = None, framebuffer_c = None,
      current_framebuffer = None,
      buffer_states = [BUFFER_STATE_IDLE, BUFFER_STATE_IDLE, BUFFER_STATE_IDLE],
      render_buffer_idx = 0, transfer_buffer_idx = 1,
      framebuffer_enabled = True,
      sram_buffer_a = None, sram_buffer_b = None, current_sram_buffer = None,
      display_task_handle = False, display_queue = None, display_done_semaphore = None,
      display_in_progress = False, display_done_flag = True,
      current_chunk = 0, total_chunks = word_of_nat MAX_CHUNKS,
      dirty_rect = d0, dirty_rect_enabled = True, force_full_redraw = False,
      spi_sent = [], spi_results = results\<rparr>"

text \<open>What the platform answers during \<^verbatim>\<open>begin()\<close>: whether the bus and the device
  can be set up, which allocations succeed, and what the freshly allocated bounce
  buffers contain.\<close>

record platform =
  spi_bus_ok :: bool
  spi_device_ok :: bool
  psram_a_ok :: bool
  psram_b_ok :: bool
  psram_c_ok :: bool
  sram_a_ok :: bool
  sram_b_ok :: bool
  sram_a_contents :: "nat \<Rightarrow> uint16_t"
  sram_b_contents :: "nat \<Rightarrow> uint16_t"
  queue_ok :: bool
  semaphore_ok :: bool
  task_ok :: bool

definition init_sequence :: "tft \<Rightarrow> tft" where
  "init_sequence s =
     in_order
       [write_command ST7735_SWRESET,
        write_command ST7735_SLPOUT,
        write_command ST7735_COLMOD, write_data 0x05,
        write_command ST7735_MADCTL, write_data 0x00,
        write_command ST7735_CASET,
        write_data 0x00, write_data 0x00, write_data 0x00, write_data 0x7F,
        write_command ST7735_RASET,
        write_data 0x00, write_data 0x00, write_data 0x00, write_data 0x9F,
        write_command ST7735_NORON,
        write_command ST7735_DISPON] s"

definition init_framebuffer :: "platform \<Rightarrow> tft \<Rightarrow> bool \<times> tft" where
  "init_framebuffer env s =
     (if framebuffer_a s \<noteq> None \<or> framebuffer_b s \<noteq> None \<or> framebuffer_c s \<noteq> None
      then (True, s)
      else if \<not> psram_a_ok env then (False, s)
      else if \<not> psram_b_ok env then (False, s\<lparr>framebuffer_a := None\<rparr>)
      else if \<not> psram_c_ok env then (False, s\<lparr>framebuffer_a := None, framebuffer_b := None\<rparr>)
      else
        (True,
         s\<lparr>framebuffer_a := Some (replicate (ST7735_WIDTH * ST7735_HEIGHT) 0),
           framebuffer_b := Some (replicate (ST7735_WIDTH * ST7735_HEIGHT) 0),
           framebuffer_c := Some (replicate (ST7735_WIDTH * ST7735_HEIGHT) 0),
           current_framebuffer := Some FB_A,
           buffer_states := (buffer_states s)[0 := BUFFER_STATE_RENDERING]\<rparr>))"

definition free_framebuffer :: "tft \<Rightarrow> tft" where
  "free_framebuffer s =
     s\<lparr>framebuffer_a := None, framebuffer_b := None, framebuffer_c := None,
       current_framebuffer := None, framebuffer_enabled := False\<rparr>"

definition init_double_buffering :: "platform \<Rightarrow> tft \<Rightarrow> bool \<times> tft" where
  "init_double_buffering env s =
     (if sram_buffer_a s \<noteq> None \<or> sram_buffer_b s \<noteq> None then (True, s)
      else if \<not> sram_a_ok env then (False, s)
      else if \<not> sram_b_ok env then (False, s\<lparr>sram_buffer_a := None\<rparr>)
      else if \<not> queue_ok env then (False, s\<lparr>sram_buffer_a := None, sram_buffer_b := None\<rparr>)
      else if \<not> semaphore_ok env then
        (False, s\<lparr>sram_buffer_a := None, sram_buffer_b := None, display_queue := None\<rparr>)
      else if \<not> task_ok env then
        (False, s\<lparr>sram_buffer_a := None, sram_buffer_b := None, display_queue := None,
                  display_done_semaphore := None\<rparr>)
      else
        (True,
         s\<lparr>sram_buffer_a := Some (map (sram_a_contents env) [0 ..< SRAM_BUFFER_SIZE div 2]),
           sram_buffer_b := Some (map (sram_b_contents env) [0 ..< SRAM_BUFFER_SIZE div 2]),
           display_queue := Some [],
           display_done_semaphore := Some True,
           display_task_handle := True,
           current_sram_buffer := Some SRAM_A,
           display_in_progress := False, display_done_flag := True, current_chunk := 0\<rparr>))"

text \<open>\<^verbatim>\<open>begin\<close> is a keyword of the theory language, hence the class prefix.\<close>

definition TFT7735V_begin :: "platform \<Rightarrow> tft \<Rightarrow> bool \<times> tft" where
  "TFT7735V_begin env s =
     (if initialized s then (True, s)
      else if \<not> spi_bus_ok env then (False, s)
      else if \<not> spi_device_ok env then (False, s\<lparr>spi_initialized := True\<rparr>)
      else
        let s1 = init_sequence (s\<lparr>spi_initialized := True\<rparr>);
            r1 = init_framebuffer env s1
        in if \<not> fst r1 then (False, snd r1)
           else
             let r2 = init_double_buffering env (snd r1)
             in if \<not> fst r2 then (False, free_framebuffer (snd r2))
                else (True, (snd r2)\<lparr>current_framebuffer :=
                                        map_option (\<lambda>_. FB_A) (framebuffer_a (snd r2)),
                                      initialized := True\<rparr>))"

section \<open>Teardown and re-enabling\<close>

text \<open>\<^verbatim>\<open>free_double_buffering\<close> first waits for a present in progress (it may wait
  forever, hence the option), then deletes the worker, the semaphore and the queue and
  frees the bounce buffers.\<close>

definition free_double_buffering :: "tft \<Rightarrow> tft option" where
  "free_double_buffering s =
     map_option
       (\<lambda>s1. s1\<lparr>display_task_handle := False, display_done_semaphore := None,
                 display_queue := None, sram_buffer_a := None, sram_buffer_b := None,
                 current_sram_buffer := None, display_in_progress := False,
                 display_done_flag := True\<rparr>)
       (if display_in_progress s then waitForDisplayDone s else Some s)"

text \<open>\<^verbatim>\<open>end\<close> is a keyword of the theory language, hence the class prefix.\<close>

definition TFT7735V_end :: "tft \<Rightarrow> tft option" where
  "TFT7735V_end s =
     (if \<not> initialized s then Some s
      else map_option (\<lambda>s1. s1\<lparr>spi_initialized := False, initialized := False\<rparr>)
             (free_double_buffering (free_framebuffer s)))"

definition disableFramebuffer :: "tft \<Rightarrow> tft" where
  "disableFramebuffer s = free_framebuffer (s\<lparr>framebuffer_enabled := False\<rparr>)"

definition enableFramebuffer :: "platform \<Rightarrow> tft \<Rightarrow> bool \<times> tft" where
  "enableFramebuffer env s =
     (if framebuffer_enabled s then (True, s)
      else
        let r1 = init_framebuffer env s
        in if \<not> fst r1 then (False, snd r1)
           else
             let r2 = init_double_buffering env (snd r1)
             in if \<not> fst r2 then (False, free_framebuffer (snd r2))
                else (True, (snd r2)\<lparr>framebuffer_enabled := True\<rparr>))"

section \<open>Observations used by the properties\<close>

text \<open>Bytes on the wire: one per command or argument byte, two per pixel.\<close>

fun pixel_bytes :: "spi_transaction list \<Rightarrow> nat" where
  "pixel_bytes [] = 0"
| "pixel_bytes (Pixels ps # ts) = 2 * length ps + pixel_bytes ts"
| "pixel_bytes (t # ts) = pixel_bytes ts"

fun total_bytes :: "spi_transaction list \<Rightarrow> nat" where
  "total_bytes [] = 0"
| "total_bytes (Pixels ps # ts) = 2 * length ps + total_bytes ts"
| "total_bytes (t # ts) = 1 + total_bytes ts"

text \<open>A present: \<^verbatim>\<open>display()\<close> followed by \<open>n\<close> iterations of the worker.\<close>

definition present :: "nat \<Rightarrow> tft \<Rightarrow> tft" where
  "present n s = display_task_run n (snd (display s))"

text \<open>The serial device reports no error from now on.\<close>

definition no_transmit_error :: "tft \<Rightarrow> bool" where
  "no_transmit_error s = list_all (\<lambda>ok. ok) (spi_results s)"

text \<open>The state of a driver that \<^verbatim>\<open>begin()\<close> has set up in the default orientation and
  that has no transfer in flight: three frame buffers of \<open>W \<times> H\<close> pixels, two bounce
  buffers of \<^verbatim>\<open>SRAM_BUFFER_SIZE\<close> bytes, an empty job queue.\<close>

definition buffers_allocated :: "tft \<Rightarrow> bool" where
  "buffers_allocated s =
     (initialized s
      \<and> width s = word_of_nat ST7735_WIDTH \<and> height s = word_of_nat ST7735_HEIGHT
      \<and> total_chunks s = word_of_nat MAX_CHUNKS
      \<and> list_all (\<lambda>fb. map_option length fb = Some (ST7735_WIDTH * ST7735_HEIGHT))
           [framebuffer_a s, framebuffer_b s, framebuffer_c s]
      \<and> list_all (\<lambda>b. map_option length b = Some (SRAM_BUFFER_SIZE div 2))
           [sram_buffer_a s, sram_buffer_b s])"

definition ready :: "tft \<Rightarrow> bool" where
  "ready s =
     (buffers_allocated s
      \<and> framebuffer_enabled s \<and> current_framebuffer s \<noteq> None
      \<and> \<not> display_in_progress s \<and> display_queue s = Some []
      \<and> display_done_semaphore s \<noteq> None
      \<and> length (buffer_states s) = 3 \<and> unat (render_buffer_idx s) < 3
      \<and> find_idle_buffer (buffer_states s) \<noteq> 255)"

section \<open>Bounding boxes (the specification's side of the dirty accumulator)\<close>

text \<open>A box is given by its corners \<open>(x0, y0, x1, y1)\<close>, the right and bottom ones
  exclusive.  \<open>clip_to_screen\<close> intersects an input \<open>(x, y, w, h)\<close> with a screen of
  \<open>W \<times> H\<close> pixels; an empty intersection is \<open>None\<close>.  \<open>bounding_box\<close> is the smallest box
  around a non-empty list of boxes.\<close>

type_synonym box = "nat \<times> nat \<times> nat \<times> nat"

definition clip_to_screen :: "nat \<Rightarrow> nat \<Rightarrow> nat \<times> nat \<times> nat \<times> nat \<Rightarrow> box option" where
  "clip_to_screen W H r =
     (case r of (x, y, w, h) \<Rightarrow>
        if x \<ge> W \<or> y \<ge> H \<or> min w (W - x) = 0 \<or> min h (H - y) = 0 then None
        else Some (x, y, x + min w (W - x), y + min h (H - y)))"

definition box_x0 :: "box \<Rightarrow> nat" where "box_x0 b = fst b"

definition box_y0 :: "box \<Rightarrow> nat" where "box_y0 b = fst (snd b)"

definition box_x1 :: "box \<Rightarrow> nat" where "box_x1 b = fst (snd (snd b))"

definition box_y1 :: "box \<Rightarrow> nat" where "box_y1 b = snd (snd (snd b))"

definition box_union :: "box option \<Rightarrow> box option \<Rightarrow> box option" where
  "box_union a b =
     (case a of None \<Rightarrow> b
      | Some p \<Rightarrow>
         (case b of None \<Rightarrow> a
          | Some q \<Rightarrow>
              Some (min (box_x0 p) (box_x0 q), min (box_y0 p) (box_y0 q),
                    max (box_x1 p) (box_x1 q), max (box_y1 p) (box_y1 q))))"

text \<open>The accumulated rectangle of a driver state as a box, and the fact that it lies
  on the screen.\<close>

definition rect_box :: "tft \<Rightarrow> box option" where
  "rect_box s =
     (if valid (dirty_rect s) then
        Some (unat (rect_x (dirty_rect s)), unat (rect_y (dirty_rect s)),
              unat (rect_x (dirty_rect s)) + unat (rect_w (dirty_rect s)),
              unat (rect_y (dirty_rect s)) + unat (rect_h (dirty_rect s)))
      else None)"

definition rect_in_screen :: "tft \<Rightarrow> bool" where
  "rect_in_screen s =
     (valid (dirty_rect s) \<longrightarrow>
        unat (rect_x (dirty_rect s)) + unat (rect_w (dirty_rect s)) \<le> unat (width s)
      \<and> unat (rect_y (dirty_rect s)) + unat (rect_h (dirty_rect s)) \<le> unat (height s))"

definition nat4 :: "uint16_t \<times> uint16_t \<times> uint16_t \<times> uint16_t \<Rightarrow> box" where
  "nat4 r = (case r of (x, y, w, h) \<Rightarrow> (unat x, unat y, unat w, unat h))"

definition clipped_inputs ::
  "tft \<Rightarrow> (uint16_t \<times> uint16_t \<times> uint16_t \<times> uint16_t) list \<Rightarrow> box list" where
  "clipped_inputs s rs =
     List.map_filter (\<lambda>r. clip_to_screen (unat (width s)) (unat (height s)) (nat4 r)) rs"

definition bounding_box :: "box list \<Rightarrow> box" where
  "bounding_box bs =
     (Min (box_x0 ` set bs), Min (box_y0 ` set bs), Max (box_x1 ` set bs), Max (box_y1 ` set bs))"

text \<open>The bounding box of a possibly empty list.\<close>

definition box_of :: "box list \<Rightarrow> box option" where
  "box_of bs = (if bs = [] then None else Some (bounding_box bs))"

text \<open>A freshly constructed driver and a sequence of dirty marks: one inside the screen,
  one of zero area, one that sticks out at the bottom right, one outside.\<close>

definition example_new :: tft where
  "example_new = TFT7735V_new \<lparr>rect_x = 7, rect_y = 7, rect_w = 7, rect_h = 7, valid = False\<rparr> []"

definition example_marks :: "(uint16_t \<times> uint16_t \<times> uint16_t \<times> uint16_t) list" where
  "example_marks = [(10, 10, 20, 20), (3, 3, 0, 5), (120, 150, 100, 100), (200, 5, 1, 1)]"

section \<open>Frame conditions\<close>

text \<open>\<open>spi_frame s s'\<close>: only the serial device differs between \<open>s\<close> and \<open>s'\<close>;
  \<open>xfer_frame s s'\<close>: only the serial device and the two bounce buffers differ.\<close>

definition spi_frame :: "tft \<Rightarrow> tft \<Rightarrow> bool" where
  "spi_frame s s' =
     (initialized s' = initialized s
      \<and> spi_initialized s' = spi_initialized s
      \<and> width s' = width s
      \<and> height s' = height s
      \<and> x_offset s' = x_offset s
      \<and> y_offset s' = y_offset s
      \<and> framebuffer_a s' = framebuffer_a s
      \<and> framebuffer_b s' = framebuffer_b s
      \<and> framebuffer_c s' = framebuffer_c s
      \<and> current_framebuffer s' = current_framebuffer s
      \<and> buffer_states s' = buffer_states s
      \<and> render_buffer_idx s' = render_buffer_idx s
      \<and> transfer_buffer_idx s' = transfer_buffer_idx s
      \<and> framebuffer_enabled s' = framebuffer_enabled s
      \<and> sram_buffer_a s' = sram_buffer_a s
      \<and> sram_buffer_b s' = sram_buffer_b s
      \<and> current_sram_buffer s' = current_sram_buffer s
      \<and> display_task_handle s' = display_task_handle s
      \<and> display_queue s' = display_queue s
      \<and> display_done_semaphore s' = display_done_semaphore s
      \<and> display_in_progress s' = display_in_progress s
      \<and> display_done_flag s' = display_done_flag s
      \<and> current_chunk s' = current_chunk s
      \<and> total_chunks s' = total_chunks s
      \<and> dirty_rect s' = dirty_rect s
      \<and> dirty_rect_enabled s' = dirty_rect_enabled s
      \<and> force_full_redraw s' = force_full_redraw s)"

definition xfer_frame :: "tft \<Rightarrow> tft \<Rightarrow> bool" where
  "xfer_frame s s' =
     (initialized s' = initialized s
      \<and> spi_initialized s' = spi_initialized s
      \<and> width s' = width s
      \<and> height s' = height s
      \<and> x_offset s' = x_offset s
      \<and> y_offset s' = y_offset s
      \<and> framebuffer_a s' = framebuffer_a s
      \<and> framebuffer_b s' = framebuffer_b s
      \<and> framebuffer_c s' = framebuffer_c s
      \<and> current_framebuffer s' = current_framebuffer s
      \<and> buffer_states s' = buffer_states s
      \<and> render_buffer_idx s' = render_buffer_idx s
      \<and> transfer_buffer_idx s' = transfer_buffer_idx s
      \<and> framebuffer_enabled s' = framebuffer_enabled s
      \<and> current_sram_buffer s' = current_sram_buffer s
      \<and> display_task_handle s' = display_task_handle s
      \<and> display_queue s' = display_queue s
      \<and> display_done_semaphore s' = display_done_semaphore s
      \<and> display_in_progress s' = display_in_progress s
      \<and> display_done_flag s' = display_done_flag s
      \<and> current_chunk s' = current_chunk s
      \<and> total_chunks s' = total_chunks s
      \<and> dirty_rect s' = dirty_rect s
      \<and> dirty_rect_enabled s' = dirty_rect_enabled s
      \<and> force_full_redraw s' = force_full_redraw s)"

section \<open>Geometry of a dirty rectangle\<close>

text \<open>The number of rows of the rectangle \<open>d\<close> that fall into chunk \<open>k\<close>, and the fact
  that \<open>d\<close> lies on the screen of the default orientation.\<close>

definition rows_in_chunk :: "dirty_rect_t \<Rightarrow> nat \<Rightarrow> nat" where
  "rows_in_chunk d k =
     min (unat (rect_y d) + unat (rect_h d)) (CHUNK_HEIGHT * k + CHUNK_HEIGHT)
       - max (unat (rect_y d)) (CHUNK_HEIGHT * k)"

definition rect_on_screen :: "dirty_rect_t \<Rightarrow> bool" where
  "rect_on_screen d =
     (unat (rect_x d) + unat (rect_w d) \<le> ST7735_WIDTH
      \<and> unat (rect_y d) + unat (rect_h d) \<le> ST7735_HEIGHT)"

section \<open>The pipeline as a transition system\<close>

text \<open>
  The states that the driver can reach after a successful \<^verbatim>\<open>begin()\<close>.  The application
  thread calls \<^verbatim>\<open>display\<close>, \<^verbatim>\<open>swapBuffers\<close>, \<^verbatim>\<open>waitForDisplayDone\<close> and the dirty
  rectangle functions; the worker thread runs iterations of \<^verbatim>\<open>display_task\<close>.  The two
  threads are interleaved at the granularity of these operations (each call and each
  worker iteration is one step); scheduling below that granularity is not modelled.
\<close>

inductive reachable :: "tft \<Rightarrow> bool" where
  after_begin: "TFT7735V_begin env (TFT7735V_new d0 results) = (True, s) \<Longrightarrow> reachable s"
| after_display: "reachable s \<Longrightarrow> reachable (snd (display s))"
| after_swapBuffers: "reachable s \<Longrightarrow> reachable (swapBuffers s)"
| after_waitForDisplayDone:
    "reachable s \<Longrightarrow> waitForDisplayDone s = Some s' \<Longrightarrow> reachable s'"
| after_worker: "reachable s \<Longrightarrow> reachable (display_task_step s)"
| after_expand_dirty_rect: "reachable s \<Longrightarrow> reachable (expand_dirty_rect x y w h s)"
| after_clearDirty: "reachable s \<Longrightarrow> reachable (clearDirty s)"
| after_forceFullRedraw: "reachable s \<Longrightarrow> reachable (forceFullRedraw s)"
| after_enableDirtyRect: "reachable s \<Longrightarrow> reachable (enableDirtyRect enable s)"

text \<open>The invariant behind I1: the render index points at the only \<open>RENDERING\<close> buffer;
  while a present is in progress the queue holds exactly one message, whose source is
  the only \<open>TRANSFERRING\<close> buffer; otherwise the queue is empty and no buffer is
  \<open>TRANSFERRING\<close>.\<close>

definition pipeline_inv :: "tft \<Rightarrow> bool" where
  "pipeline_inv s =
     (length (buffer_states s) = 3
      \<and> unat (render_buffer_idx s) < 3
      \<and> (\<forall>i<3. (buffer_states s ! i = BUFFER_STATE_RENDERING)
                  = (i = unat (render_buffer_idx s)))
      \<and> (if display_in_progress s then
            \<exists>m. display_queue s = Some [m] \<and> unat (source_buffer_idx m) < 3
              \<and> (\<forall>i<3. (buffer_states s ! i = BUFFER_STATE_TRANSFERRING)
                          = (i = unat (source_buffer_idx m)))
          else display_queue s = Some []
               \<and> (\<forall>i<3. buffer_states s ! i \<noteq> BUFFER_STATE_TRANSFERRING)))"

text \<open>The platform on which every step of \<^verbatim>\<open>begin()\<close> succeeds, and the driver that
  \<^verbatim>\<open>begin()\<close> returns there.\<close>

definition example_platform :: platform where
  "example_platform =
     \<lparr>spi_bus_ok = True, spi_device_ok = True, psram_a_ok = True, psram_b_ok = True,
      psram_c_ok = True, sram_a_ok = True, sram_b_ok = True,
      sram_a_contents = (\<lambda>i. 0), sram_b_contents = (\<lambda>i. 0),
      queue_ok = True, semaphore_ok = True, task_ok = True\<rparr>"

definition example_begun :: tft where
  "example_begun = snd (TFT7735V_begin example_platform example_new)"

text \<open>The driver of the example while its first present is in flight.\<close>

definition example_presenting :: tft where
  "example_presenting = snd (display example_begun)"

text \<open>The checks of \<^verbatim>\<open>display()\<close> that precede the search for an idle buffer.\<close>

definition display_guards_pass :: "tft \<Rightarrow> bool" where
  "display_guards_pass s =
     (framebuffer_enabled s \<and> current_framebuffer s \<noteq> None \<and> initialized s
      \<and> \<not> display_in_progress s \<and> display_queue s \<noteq> None)"

text \<open>A driver none of whose buffers is idle.\<close>

definition example_no_idle :: tft where
  "example_no_idle =
     example_begun\<lparr>buffer_states :=
        [BUFFER_STATE_RENDERING, BUFFER_STATE_TRANSFERRING, BUFFER_STATE_RENDERING]\<rparr>"

section \<open>The chunks of a job\<close>

text \<open>\<open>chunks_run msg n\<close> transfers the \<open>n\<close> consecutive chunks that start with the chunk
  of \<open>msg\<close>; \<open>job_end msg s\<close> is the index of the last chunk of the job that \<open>msg\<close>
  belongs to, as the worker computes it.\<close>

fun chunks_run :: "display_message_t \<Rightarrow> nat \<Rightarrow> tft \<Rightarrow> tft" where
  "chunks_run msg 0 s = s"
| "chunks_run msg (Suc n) s =
     chunks_run (msg\<lparr>chunk_idx := chunk_idx msg + 1\<rparr>) n (transfer_chunk msg s)"

definition job_end :: "display_message_t \<Rightarrow> tft \<Rightarrow> uint8_t" where
  "job_end msg s =
     (if use_dirty_rect msg \<and> valid (msg_dirty_rect msg) then
        snd (snd (calculate_dirty_chunks (msg_dirty_rect msg) s))
      else total_chunks s - 1)"

section \<open>The job of a present\<close>

text \<open>For a driver that is ready to present: the state right after the buffer swap
  (\<open>job_start\<close>), the first message (\<open>job_message\<close>), and the number of chunks that the
  worker processes (\<open>job_chunks\<close>): every chunk in full-frame mode; in dirty mode the
  chunks from \<^verbatim>\<open>start_chunk\<close> to \<^verbatim>\<open>end_chunk\<close>, and the one chunk \<^verbatim>\<open>start_chunk\<close> when
  \<^verbatim>\<open>end_chunk\<close> lies before it.  \<open>dirty_ok\<close>: in dirty mode the dirty rectangle lies on
  the screen.\<close>

definition dirty_ok :: "tft \<Rightarrow> bool" where
  "dirty_ok s = (use_dirty s \<longrightarrow> rect_on_screen (dirty_rect s))"

definition job_chunks :: "tft \<Rightarrow> nat" where
  "job_chunks s =
     (if use_dirty s then
        let plan = calculate_dirty_chunks (dirty_rect s) s;
            start_chunk = fst (snd plan);
            end_chunk = snd (snd plan)
        in if start_chunk \<le> end_chunk then unat end_chunk - unat start_chunk + 1 else 1
      else MAX_CHUNKS)"

definition job_message :: "tft \<Rightarrow> display_message_t" where
  "job_message s = (first_message s)\<lparr>source_buffer_idx := render_buffer_idx s\<rparr>"

definition job_start :: "tft \<Rightarrow> tft" where
  "job_start s = swap_for_present (find_idle_buffer (buffer_states s)) s"

section \<open>Example states of the presents\<close>

text \<open>The driver of the example after one dirty mark that spans two chunks (rows 20 to
  49), and after \<^verbatim>\<open>forceFullRedraw()\<close> followed by a dirty mark.\<close>

definition example_marked :: tft where
  "example_marked = expand_dirty_rect 10 20 20 30 example_begun"

definition example_forced :: tft where
  "example_forced = expand_dirty_rect 0 0 1 1 (forceFullRedraw example_begun)"

text \<open>A serial device that accepts the eleven transactions of one address window and
  reports an error for the transaction that follows (the first pixel transaction of the
  chunk); after that it reports no error.\<close>

definition address_window_then_error :: "bool list" where
  "address_window_then_error =
     [True, True, True, True, True, True, True, True, True, True, True, False]"

text \<open>The driver of the example on that device: with the first frame buffer filled
  with \<open>0x00FF\<close>, and with the dirty mark of \<open>example_marked\<close>.\<close>

definition example_filled :: tft where
  "example_filled =
     example_begun\<lparr>framebuffer_a := Some (replicate (ST7735_WIDTH * ST7735_HEIGHT) 0x00FF),
                    spi_results := address_window_then_error\<rparr>"


section \<open>Properties\<close>

subsection \<open>Dirty accumulator\<close>

lemmas box_sel = box_x0_def box_y0_def box_x1_def box_y1_def

lemma expand_frame:
  "width (expand_dirty_rect x y w h s) = width s"
  "height (expand_dirty_rect x y w h s) = height s"
  "dirty_rect_enabled (expand_dirty_rect x y w h s) = dirty_rect_enabled s"
  by (simp_all add: expand_dirty_rect_def Let_def)

lemma clip_len:
  fixes x w W :: uint16_t
  assumes "x < W"
  shows "unat (if unat x + unat w > unat W then W - x else w) = min (unat w) (unat W - unat x)"
  using assms by (auto simp: unat_sub word_less_nat_alt word_le_nat_alt)

lemma clip_zero:
  fixes x w W :: uint16_t
  assumes "x < W"
  shows "((if unat x + unat w > unat W then W - x else w) = 0) = (min (unat w) (unat W - unat x) = 0)"
  proof -
  let ?c = "if unat x + unat w > unat W then W - x else w"
  have "(?c = 0) = (unat ?c = 0)" by (simp only: unat_eq_0)
  then show ?thesis using clip_len[OF assms, of w] by simp
qed

lemma expand_none:
  assumes "clip_to_screen (unat (width s)) (unat (height s)) (unat x, unat y, unat w, unat h) = None"
  shows "expand_dirty_rect x y w h s = s"
proof (cases "x \<ge> width s \<or> y \<ge> height s")
  case True
  then show ?thesis by (auto simp add: expand_dirty_rect_def)
next
  case False
  then have lt: "x < width s" "y < height s" by auto
  from False assms have "min (unat w) (unat (width s) - unat x) = 0 \<or> min (unat h) (unat (height s) - unat y) = 0"
    by (auto simp: clip_to_screen_def word_le_nat_alt split: if_splits)
  then have "(if unat x + unat w > unat (width s) then width s - x else w) = 0
      \<or> (if unat y + unat h > unat (height s) then height s - y else h) = 0"
    using clip_zero[OF lt(1), of w] clip_zero[OF lt(2), of h] by blast
  then show ?thesis
    by (simp add: expand_dirty_rect_def Let_def)
qed

lemma unat_min_word: "unat (min a b) = min (unat a) (unat (b::uint16_t))"
  by (simp add: min_def word_le_nat_alt)

lemma expand_some:
  assumes en: "dirty_rect_enabled s"
    and scr: "rect_in_screen s"
    and c: "clip_to_screen (unat (width s)) (unat (height s)) (unat x, unat y, unat w, unat h) = Some b"
  shows "rect_box (expand_dirty_rect x y w h s) = box_union (rect_box s) (Some b)"
    and "rect_in_screen (expand_dirty_rect x y w h s)"
proof -
  let ?W = "width s" and ?H = "height s"
  define w1 where "w1 = (if unat x + unat w > unat ?W then ?W - x else w)"
  define h1 where "h1 = (if unat y + unat h > unat ?H then ?H - y else h)"
  from c have lt: "x < ?W" "y < ?H"
    by (auto simp: clip_to_screen_def word_less_nat_alt split: if_splits)
  have w1: "unat w1 = min (unat w) (unat ?W - unat x)"
    unfolding w1_def by (rule clip_len[OF lt(1)])
  have h1: "unat h1 = min (unat h) (unat ?H - unat y)"
    unfolding h1_def by (rule clip_len[OF lt(2)])
  from c have nz: "min (unat w) (unat ?W - unat x) \<noteq> 0" "min (unat h) (unat ?H - unat y) \<noteq> 0"
    and b: "b = (unat x, unat y, unat x + min (unat w) (unat ?W - unat x),
                 unat y + min (unat h) (unat ?H - unat y))"
    by (auto simp: clip_to_screen_def split: if_splits)
  have nzw: "w1 \<noteq> 0"
    unfolding w1_def clip_zero[OF lt(1), of w] by (rule nz(1))
  have nzh: "h1 \<noteq> 0"
    unfolding h1_def clip_zero[OF lt(2), of h] by (rule nz(2))
  have guard: "\<not> (?W \<le> x \<or> ?H \<le> y)" using lt by auto
  have bx: "unat x + unat w1 \<le> unat ?W" "unat y + unat h1 \<le> unat ?H"
    using w1 h1 lt by (simp_all add: word_less_nat_alt)
  have b': "b = (unat x, unat y, unat x + unat w1, unat y + unat h1)"
    using b w1 h1 by simp
  have both: "rect_box (expand_dirty_rect x y w h s) = box_union (rect_box s) (Some b)
      \<and> rect_in_screen (expand_dirty_rect x y w h s)"
  proof (cases "valid (dirty_rect s)")
    case False
    have e: "expand_dirty_rect x y w h s =
        s\<lparr>dirty_rect := \<lparr>rect_x = x, rect_y = y, rect_w = w1, rect_h = h1, valid = True\<rparr>\<rparr>"
      using en guard nzw nzh False unfolding expand_dirty_rect_def Let_def w1_def h1_def
      by presburger
    have "rect_box (expand_dirty_rect x y w h s) = box_union (rect_box s) (Some b)"
      unfolding e b' using False by (simp add: rect_box_def box_union_def)
    moreover have "rect_in_screen (expand_dirty_rect x y w h s)"
      unfolding e using bx by (simp add: rect_in_screen_def)
    ultimately show ?thesis by simp
  next
    case True
    let ?d = "dirty_rect s"
    define x1 where "x1 = min (rect_x ?d) x"
    define y1 where "y1 = min (rect_y ?d) y"
    define nx2 where "nx2 = max (unat (rect_x ?d) + unat (rect_w ?d)) (unat x + unat w1)"
    define ny2 where "ny2 = max (unat (rect_y ?d) + unat (rect_h ?d)) (unat y + unat h1)"
    define x2 where "x2 = (word_of_nat nx2 :: uint16_t)"
    define y2 where "y2 = (word_of_nat ny2 :: uint16_t)"
    have e: "expand_dirty_rect x y w h s =
        s\<lparr>dirty_rect := ?d\<lparr>rect_x := x1, rect_y := y1, rect_w := x2 - x1, rect_h := y2 - y1\<rparr>\<rparr>"
      using en guard nzw nzh True
      unfolding expand_dirty_rect_def Let_def w1_def h1_def x1_def y1_def x2_def y2_def nx2_def ny2_def
      by presburger
    from scr True have old: "unat (rect_x ?d) + unat (rect_w ?d) \<le> unat ?W"
        "unat (rect_y ?d) + unat (rect_h ?d) \<le> unat ?H"
      by (simp_all add: rect_in_screen_def)
    have ub: "nx2 \<le> unat ?W" "ny2 \<le> unat ?H"
      unfolding nx2_def ny2_def using old bx by simp_all
    have ux2: "unat x2 = nx2" and uy2: "unat y2 = ny2"
      unfolding x2_def y2_def by (rule le_unat_uoi[OF ub(1)], rule le_unat_uoi[OF ub(2)])
    have ux1: "unat x1 = min (unat (rect_x ?d)) (unat x)"
      and uy1: "unat y1 = min (unat (rect_y ?d)) (unat y)"
      unfolding x1_def y1_def by (rule unat_min_word)+
    have le: "unat x1 \<le> unat x2" "unat y1 \<le> unat y2"
      unfolding ux2 uy2 ux1 uy1 nx2_def ny2_def by linarith+
    then have sub: "unat (x2 - x1) = unat x2 - unat x1" "unat (y2 - y1) = unat y2 - unat y1"
      by (simp_all add: unat_sub word_le_nat_alt)
    have sum: "unat x1 + unat (x2 - x1) = nx2" "unat y1 + unat (y2 - y1) = ny2"
      using le unfolding sub ux2 uy2 by linarith+
    have "rect_box (expand_dirty_rect x y w h s) = box_union (rect_box s) (Some b)"
      unfolding e b' using True
      by (simp add: rect_box_def box_union_def box_sel sum[unfolded ux1 uy1 nx2_def ny2_def] ux1 uy1)
    moreover have "rect_in_screen (expand_dirty_rect x y w h s)"
      unfolding e using ub by (simp add: rect_in_screen_def sum)
    ultimately show ?thesis by simp
  qed
  from both show "rect_box (expand_dirty_rect x y w h s) = box_union (rect_box s) (Some b)"
    and "rect_in_screen (expand_dirty_rect x y w h s)" by simp_all
qed

lemma bounding_box_single: "bounding_box [b] = b"
  by (simp add: bounding_box_def box_sel)

lemma bounding_box_cons:
  "bs \<noteq> [] \<Longrightarrow> box_union (Some a) (Some (bounding_box bs)) = Some (bounding_box (a # bs))"
  by (simp add: bounding_box_def box_union_def box_sel)

lemma bounding_box_snoc:
  "bs \<noteq> [] \<Longrightarrow> box_union (Some (bounding_box bs)) (Some a) = Some (bounding_box (bs @ [a]))"
  by (simp add: bounding_box_def box_union_def box_sel min.commute max.commute)

lemma box_of_snoc: "box_union (box_of bs) (Some a) = box_of (bs @ [a])"
proof (cases "bs = []")
  case True
  then show ?thesis by (simp add: box_of_def bounding_box_single box_union_def)
next
  case False
  then show ?thesis by (simp add: box_of_def bounding_box_snoc)
qed

lemma mark_all_frame:
  "width (mark_all rs s) = width s"
  "height (mark_all rs s) = height s"
  "dirty_rect_enabled (mark_all rs s) = dirty_rect_enabled s"
  by (induction rs s rule: mark_all.induct) (simp_all add: expand_frame)

lemma clipped_inputs_snoc:
  "clipped_inputs s (rs @ [r]) =
     clipped_inputs s rs @
       (case clip_to_screen (unat (width s)) (unat (height s)) (nat4 r) of None \<Rightarrow> [] | Some b \<Rightarrow> [b])"
  by (simp add: clipped_inputs_def List.map_filter_def split: option.splits)

lemma mark_all_snoc: "mark_all (rs @ [(x, y, w, h)]) s = expand_dirty_rect x y w h (mark_all rs s)"
  by (induction rs s rule: mark_all.induct) simp_all

lemma mark_all_box:
  assumes "dirty_rect_enabled s" and "\<not> valid (dirty_rect s)"
  shows "rect_box (mark_all rs s) = box_of (clipped_inputs s rs) \<and> rect_in_screen (mark_all rs s)
       \<and> (clipped_inputs s rs = [] \<longrightarrow> mark_all rs s = s)"
proof (induction rs rule: rev_induct)
  case Nil
  show ?case using assms
    by (simp add: clipped_inputs_def List.map_filter_def box_of_def rect_box_def rect_in_screen_def)
next
  case (snoc r rs)
  obtain x y w h where r: "r = (x, y, w, h)" by (cases r) auto
  let ?s = "mark_all rs s"
  let ?c = "clip_to_screen (unat (width s)) (unat (height s)) (unat x, unat y, unat w, unat h)"
  have en: "dirty_rect_enabled ?s" using assms(1) by (simp add: mark_all_frame)
  have c': "clip_to_screen (unat (width ?s)) (unat (height ?s)) (unat x, unat y, unat w, unat h) = ?c"
    by (simp add: mark_all_frame)
  show ?case
  proof (cases ?c)
    case None
    have "clip_to_screen (unat (width ?s)) (unat (height ?s)) (unat x, unat y, unat w, unat h) = None"
      using c' None by simp
    then have "expand_dirty_rect x y w h ?s = ?s" by (rule expand_none)
    moreover have "expand_dirty_rect x y w h s = s" by (rule expand_none[OF None])
    ultimately show ?thesis using snoc None
      by (simp add: r mark_all_snoc clipped_inputs_snoc nat4_def)
  next
    case (Some b)
    have cs: "clip_to_screen (unat (width ?s)) (unat (height ?s)) (unat x, unat y, unat w, unat h) = Some b"
      using c' Some by simp
    from snoc have scr: "rect_in_screen ?s" and bx: "rect_box ?s = box_of (clipped_inputs s rs)"
      by simp_all
    have "rect_box (expand_dirty_rect x y w h ?s) = box_union (rect_box ?s) (Some b)"
      and "rect_in_screen (expand_dirty_rect x y w h ?s)"
      using expand_some[OF en scr cs] by simp_all
    then show ?thesis using Some bx
      by (simp add: r mark_all_snoc clipped_inputs_snoc nat4_def box_of_snoc)
  qed
qed

text \<open>
  Claim C5.  With dirty tracking enabled and starting from an invalid dirty rectangle,
  any sequence of \<^verbatim>\<open>expand_dirty_rect\<close> calls leaves the bounding box of the inputs clipped
  to the screen: the minimum of the left and top edges and the maximum of the right and
  bottom edges of the clipped, non-empty inputs.  Inputs outside the screen or of zero
  area change nothing; if there is no other input the state is unchanged.
\<close>

theorem dirty_rect_is_bounding_box:
  assumes "dirty_rect_enabled s" and "\<not> valid (dirty_rect s)"
  shows "(clipped_inputs s rs = [] \<longrightarrow> mark_all rs s = s)
       \<and> (clipped_inputs s rs \<noteq> [] \<longrightarrow>
            valid (dirty_rect (mark_all rs s))
          \<and> (unat (rect_x (dirty_rect (mark_all rs s))),
              unat (rect_y (dirty_rect (mark_all rs s))),
              unat (rect_x (dirty_rect (mark_all rs s))) + unat (rect_w (dirty_rect (mark_all rs s))),
              unat (rect_y (dirty_rect (mark_all rs s))) + unat (rect_h (dirty_rect (mark_all rs s))))
            = bounding_box (clipped_inputs s rs))"
  using mark_all_box[OF assms, of rs]
  by (auto simp: box_of_def rect_box_def split: if_splits)

lemma ex_clipped: "clipped_inputs example_new example_marks = [(10, 10, 30, 30), (120, 150, 128, 160)]"
  by (simp add: clipped_inputs_def example_new_def example_marks_def TFT7735V_new_def
      List.map_filter_def clip_to_screen_def nat4_def ST7735_WIDTH_def ST7735_HEIGHT_def)

theorem dirty_rect_is_bounding_box_witness:
  "dirty_rect_enabled example_new \<and> \<not> valid (dirty_rect example_new)
   \<and> clipped_inputs example_new example_marks \<noteq> []
   \<and> valid (dirty_rect (mark_all example_marks example_new))
   \<and> bounding_box (clipped_inputs example_new example_marks) = (10, 10, 128, 160)
   \<and> unat (rect_x (dirty_rect (mark_all example_marks example_new))) = 10
   \<and> unat (rect_y (dirty_rect (mark_all example_marks example_new))) = 10
   \<and> unat (rect_w (dirty_rect (mark_all example_marks example_new))) = 118
   \<and> unat (rect_h (dirty_rect (mark_all example_marks example_new))) = 150"
proof -
  have h1: "dirty_rect_enabled example_new" and h2: "\<not> valid (dirty_rect example_new)"
    by (simp_all add: example_new_def TFT7735V_new_def)
  have bb: "bounding_box (clipped_inputs example_new example_marks) = (10, 10, 128, 160)"
    by (simp add: ex_clipped bounding_box_def box_sel)
  show ?thesis
    using h1 h2 bb dirty_rect_is_bounding_box[OF h1 h2, of example_marks]
    by (simp add: ex_clipped)
qed

subsection \<open>Serial device, byte swapping and the transmit loops\<close>

lemma spi_frame_refl: "spi_frame s s"
  by (simp add: spi_frame_def)

lemma spi_frame_trans: "spi_frame s s1 \<Longrightarrow> spi_frame s1 s2 \<Longrightarrow> spi_frame s s2"
  by (simp add: spi_frame_def)

lemma xfer_frame_refl: "xfer_frame s s"
  by (simp add: xfer_frame_def)

lemma xfer_frame_trans: "xfer_frame s s1 \<Longrightarrow> xfer_frame s1 s2 \<Longrightarrow> xfer_frame s s2"
  by (simp add: xfer_frame_def)

lemma spi_frame_xfer: "spi_frame s s' \<Longrightarrow> xfer_frame s s'"
  by (simp add: spi_frame_def xfer_frame_def)

lemma transmit_frame: "spi_frame s (snd (spi_device_polling_transmit t s))"
  by (simp add: spi_frame_def spi_device_polling_transmit_def split: list.splits)

lemma write_command_frame: "spi_frame s (write_command c s)"
  by (simp add: write_command_def transmit_frame)

lemma write_data_frame: "spi_frame s (write_data c s)"
  by (simp add: write_data_def transmit_frame)

lemma pixel_bytes_append: "pixel_bytes (a @ b) = pixel_bytes a + pixel_bytes b"
  by (induction a rule: pixel_bytes.induct) simp_all

lemma total_bytes_append: "total_bytes (a @ b) = total_bytes a + total_bytes b"
  by (induction a rule: total_bytes.induct) simp_all

lemma transmit_ok:
  assumes "no_transmit_error s"
  shows "fst (spi_device_polling_transmit t s)"
    and "spi_sent (snd (spi_device_polling_transmit t s)) = spi_sent s @ [t]"
    and "no_transmit_error (snd (spi_device_polling_transmit t s))"
  using assms
  by (cases "spi_results s"; simp add: no_transmit_error_def spi_device_polling_transmit_def)+

lemma write_command_ok:
  assumes "no_transmit_error s"
  shows "spi_sent (write_command c s) = spi_sent s @ [Command c]"
    and "no_transmit_error (write_command c s)"
  using transmit_ok[OF assms] by (simp_all add: write_command_def)

lemma write_data_ok:
  assumes "no_transmit_error s"
  shows "spi_sent (write_data c s) = spi_sent s @ [Data c]"
    and "no_transmit_error (write_data c s)"
  using transmit_ok[OF assms] by (simp_all add: write_data_def)

lemma set_addr_window_frame: "spi_frame s (set_addr_window x0 y0 x1 y1 s)"
  unfolding set_addr_window_def Let_def in_order_def fold_simps
  by (intro spi_frame_trans[OF _ write_command_frame] spi_frame_trans[OF _ write_data_frame] spi_frame_refl)

lemma set_addr_window_ok:
  assumes "no_transmit_error s"
  shows "no_transmit_error (set_addr_window x0 y0 x1 y1 s)"
    and "pixel_bytes (spi_sent (set_addr_window x0 y0 x1 y1 s)) = pixel_bytes (spi_sent s)"
    and "total_bytes (spi_sent (set_addr_window x0 y0 x1 y1 s)) = total_bytes (spi_sent s) + 11"
  using assms
  by (simp_all add: set_addr_window_def Let_def in_order_def write_command_ok write_data_ok
      pixel_bytes_append total_bytes_append)


lemma bswap16_bswap16: "bswap16 (bswap16 v) = v"
  unfolding bswap16_def
  by (rule bit_word_eqI) (auto simp: bit_simps)

lemma length_bswap_region: "length (bswap_region off n buf) = length buf"
  by (simp add: bswap_region_def)

lemma nth_bswap_region:
  assumes "i < length buf"
  shows "bswap_region off n buf ! i = (if off \<le> i \<and> i < off + n then bswap16 (buf ! i) else buf ! i)"
proof -
  consider "i < off" | "off \<le> i" "i < off + n" | "off + n \<le> i" by linarith
  then show ?thesis
  proof cases
    case 1
    then show ?thesis using assms by (simp add: bswap_region_def nth_append)
  next
    case 2
    then have "i - off < n" "i - off < length buf - off" using assms by simp_all
    then show ?thesis using assms 2
      by (simp add: bswap_region_def nth_append min_def)
  next
    case 3
    then have a: "\<not> i < off" "\<not> (i - off < n)" by simp_all
    have m: "min (length buf) off = off" "min (length buf - off) n = n" using 3 assms by simp_all
    have e: "off + n + (i - off - n) = i" using 3 by simp
    have "bswap_region off n buf ! i = drop (off + n) buf ! (i - off - n)"
      using a by (simp add: bswap_region_def nth_append m)
    also have "\<dots> = buf ! i" using assms 3 e by simp
    finally show ?thesis using 3 by simp
  qed
qed

lemma bswap_region_twice: "bswap_region off n (bswap_region off n buf) = buf"
  by (rule nth_equalityI)
     (simp_all add: length_bswap_region nth_bswap_region bswap16_bswap16)

lemma slice_bswap_region:
  "take n (drop off (bswap_region off n buf)) = map bswap16 (take n (drop off buf))"
proof (rule nth_equalityI)
  show "length (take n (drop off (bswap_region off n buf))) = length (map bswap16 (take n (drop off buf)))"
    by (simp add: length_bswap_region)
next
  fix i assume "i < length (take n (drop off (bswap_region off n buf)))"
  then have "i < n \<and> i < length buf - off" by (simp add: length_bswap_region)
  then have i: "i < n" "off + i < length buf" by linarith+
  then have le: "off \<le> length buf" by simp
  have "take n (drop off (bswap_region off n buf)) ! i = bswap_region off n buf ! (off + i)"
    using i le by (simp add: length_bswap_region)
  also have "\<dots> = bswap16 (buf ! (off + i))"
    using i by (simp add: nth_bswap_region)
  also have "\<dots> = map bswap16 (take n (drop off buf)) ! i"
    using i le by simp
  finally show "take n (drop off (bswap_region off n buf)) ! i = map bswap16 (take n (drop off buf)) ! i" .
qed

lemma length_slice: "off + n \<le> length buf \<Longrightarrow> length (take n (drop off buf)) = n"
  by simp


lemma send_chunk_loop_frame: "spi_frame s (snd (send_chunk_loop tp off buf s))"
proof (induction tp off buf s rule: send_chunk_loop.induct)
  case (1 tp off buf s)
  show ?case
  proof (cases "off < tp")
    case False
    then show ?thesis by (subst send_chunk_loop.simps) (simp add: spi_frame_refl)
  next
    case True
    let ?cur = "if tp - off > spi_chunk_size then spi_chunk_size else tp - off"
    let ?sw = "bswap_region off ?cur buf"
    let ?r = "spi_device_polling_transmit (Pixels (take ?cur (drop off ?sw))) s"
    have f: "spi_frame s (snd ?r)" by (rule transmit_frame)
    show ?thesis
    proof (cases "fst ?r")
      case False
      then show ?thesis using True f
        by (subst send_chunk_loop.simps) (simp add: Let_def)
    next
      case ok: True
      have "spi_frame (snd ?r) (snd (send_chunk_loop tp (off + spi_chunk_size)
                (bswap_region off ?cur ?sw) (snd ?r)))"
        using 1[OF True refl refl refl] ok by simp
      then show ?thesis using True ok spi_frame_trans[OF f]
        by (subst send_chunk_loop.simps) (simp add: Let_def)
    qed
  qed
qed

lemma send_chunk_loop_ok:
  assumes "no_transmit_error s" and "tp \<le> length buf"
  shows "fst (send_chunk_loop tp off buf s) = buf
       \<and> no_transmit_error (snd (send_chunk_loop tp off buf s))
       \<and> pixel_bytes (spi_sent (snd (send_chunk_loop tp off buf s)))
           = pixel_bytes (spi_sent s) + 2 * (tp - off)
       \<and> total_bytes (spi_sent (snd (send_chunk_loop tp off buf s)))
           = total_bytes (spi_sent s) + 2 * (tp - off)"
  using assms
proof (induction tp off buf s rule: send_chunk_loop.induct)
  case (1 tp off buf s)
  note p = "1.prems" and IH = "1.IH"
  show ?case
  proof (cases "off < tp")
    case False
    then show ?thesis using p by (subst (1 2 3 4) send_chunk_loop.simps) simp
  next
    case True
    define cur where "cur = (if tp - off > spi_chunk_size then spi_chunk_size else tp - off)"
    define sw where "sw = bswap_region off cur buf"
    define t where "t = Pixels (take cur (drop off sw))"
    define r where "r = spi_device_polling_transmit t s"
    have ok: "fst r" and sent: "spi_sent (snd r) = spi_sent s @ [t]"
      and ne: "no_transmit_error (snd r)"
      unfolding r_def using transmit_ok[OF p(1)] by simp_all
    have restored: "bswap_region off cur sw = buf"
      unfolding sw_def by (rule bswap_region_twice)
    have "off + cur \<le> length sw"
      using True p(2) unfolding sw_def cur_def length_bswap_region by (cases "spi_chunk_size < tp - off") simp_all
    then have len: "min (length sw - off) cur = cur" by simp
    have ih: "fst (send_chunk_loop tp (off + spi_chunk_size) buf (snd r)) = buf
       \<and> no_transmit_error (snd (send_chunk_loop tp (off + spi_chunk_size) buf (snd r)))
       \<and> pixel_bytes (spi_sent (snd (send_chunk_loop tp (off + spi_chunk_size) buf (snd r))))
           = pixel_bytes (spi_sent (snd r)) + 2 * (tp - (off + spi_chunk_size))
       \<and> total_bytes (spi_sent (snd (send_chunk_loop tp (off + spi_chunk_size) buf (snd r))))
           = total_bytes (spi_sent (snd r)) + 2 * (tp - (off + spi_chunk_size))"
      using IH[OF True cur_def sw_def r_def[unfolded t_def]] ok p(2) restored ne
      by (simp add: r_def t_def)
    have step: "send_chunk_loop tp off buf s = send_chunk_loop tp (off + spi_chunk_size) buf (snd r)"
      using True ok restored
      by (subst send_chunk_loop.simps) (simp add: Let_def cur_def sw_def r_def t_def)
    have arith: "cur + (tp - (off + spi_chunk_size)) = tp - off"
      using True by (simp add: cur_def)
    have pb: "pixel_bytes (spi_sent (snd r)) = pixel_bytes (spi_sent s) + 2 * cur"
      and tb: "total_bytes (spi_sent (snd r)) = total_bytes (spi_sent s) + 2 * cur"
      unfolding sent t_def by (simp_all add: pixel_bytes_append total_bytes_append len)
    show ?thesis
      unfolding step using ih arith pb tb by simp
  qed
qed


lemma send_dirty_rows_buffer:
  "fst (send_dirty_rows dh oy wd dx dw row buf s) = buf"
proof (induction dh oy wd dx dw row buf s rule: send_dirty_rows.induct)
  case (1 dh oy wd dx dw row buf s)
  note IH = "1.IH"
  show ?case
  proof (cases "row < dh")
    case False
    then show ?thesis by (subst send_dirty_rows.simps) simp
  next
    case True
    define ls where "ls = (oy + row) * wd + dx"
    define sw where "sw = bswap_region ls dw buf"
    define r where "r = spi_device_polling_transmit (Pixels (take dw (drop ls sw))) s"
    have restored: "bswap_region ls dw sw = buf"
      unfolding sw_def by (rule bswap_region_twice)
    have u: "send_dirty_rows dh oy wd dx dw row buf s =
        (if \<not> fst r then (buf, snd r)
         else send_dirty_rows dh oy wd dx dw (row + 1) buf (snd r))"
      using True restored
      by (subst send_dirty_rows.simps) (simp add: Let_def ls_def sw_def r_def)
    show ?thesis
    proof (cases "fst r")
      case False
      then show ?thesis unfolding u by simp
    next
      case ok: True
      have "fst (send_dirty_rows dh oy wd dx dw (row + 1) buf (snd r)) = buf"
        using IH[OF True ls_def sw_def r_def] ok restored by simp
      then show ?thesis unfolding u using ok by simp
    qed
  qed
qed

lemma send_dirty_rows_frame:
  "spi_frame s (snd (send_dirty_rows dh oy wd dx dw row buf s))"
proof (induction dh oy wd dx dw row buf s rule: send_dirty_rows.induct)
  case (1 dh oy wd dx dw row buf s)
  note IH = "1.IH"
  show ?case
  proof (cases "row < dh")
    case False
    then show ?thesis by (subst send_dirty_rows.simps) (simp add: spi_frame_refl)
  next
    case True
    define ls where "ls = (oy + row) * wd + dx"
    define sw where "sw = bswap_region ls dw buf"
    define r where "r = spi_device_polling_transmit (Pixels (take dw (drop ls sw))) s"
    have restored: "bswap_region ls dw sw = buf"
      unfolding sw_def by (rule bswap_region_twice)
    have f: "spi_frame s (snd r)" unfolding r_def by (rule transmit_frame)
    have u: "send_dirty_rows dh oy wd dx dw row buf s =
        (if \<not> fst r then (buf, snd r)
         else send_dirty_rows dh oy wd dx dw (row + 1) buf (snd r))"
      using True restored
      by (subst send_dirty_rows.simps) (simp add: Let_def ls_def sw_def r_def)
    show ?thesis
    proof (cases "fst r")
      case False
      then show ?thesis unfolding u using f by simp
    next
      case ok: True
      have "spi_frame (snd r) (snd (send_dirty_rows dh oy wd dx dw (row + 1) buf (snd r)))"
        using IH[OF True ls_def sw_def r_def] ok restored by simp
      then show ?thesis unfolding u using ok spi_frame_trans[OF f] by simp
    qed
  qed
qed

lemma send_dirty_rows_ok:
  assumes "no_transmit_error s" and "(oy + dh) * wd \<le> length buf" and "dx + dw \<le> wd"
  shows "no_transmit_error (snd (send_dirty_rows dh oy wd dx dw row buf s))
       \<and> pixel_bytes (spi_sent (snd (send_dirty_rows dh oy wd dx dw row buf s)))
           = pixel_bytes (spi_sent s) + 2 * dw * (dh - row)
       \<and> total_bytes (spi_sent (snd (send_dirty_rows dh oy wd dx dw row buf s)))
           = total_bytes (spi_sent s) + 2 * dw * (dh - row)"
  using assms
proof (induction dh oy wd dx dw row buf s rule: send_dirty_rows.induct)
  case (1 dh oy wd dx dw row buf s)
  note p = "1.prems" and IH = "1.IH"
  show ?case
  proof (cases "row < dh")
    case False
    then show ?thesis using p by (subst (1 2 3) send_dirty_rows.simps) simp
  next
    case True
    define ls where "ls = (oy + row) * wd + dx"
    define sw where "sw = bswap_region ls dw buf"
    define t where "t = Pixels (take dw (drop ls sw))"
    define r where "r = spi_device_polling_transmit t s"
    have ok: "fst r" and sent: "spi_sent (snd r) = spi_sent s @ [t]"
      and ne: "no_transmit_error (snd r)"
      unfolding r_def using transmit_ok[OF p(1)] by simp_all
    have restored: "bswap_region ls dw sw = buf"
      unfolding sw_def by (rule bswap_region_twice)
    have "(oy + row) * wd + wd \<le> (oy + dh) * wd"
    proof -
      have "oy + row + 1 \<le> oy + dh" using True by simp
      then have "(oy + row + 1) * wd \<le> (oy + dh) * wd" by (rule mult_le_mono1)
      then show ?thesis by (simp add: algebra_simps)
    qed
    then have "ls + dw \<le> length sw"
      using p(2,3) by (simp add: ls_def sw_def length_bswap_region)
    then have len: "min (length sw - ls) dw = dw" by simp
    have u: "send_dirty_rows dh oy wd dx dw row buf s =
         send_dirty_rows dh oy wd dx dw (row + 1) buf (snd r)"
      using True restored ok
      by (subst send_dirty_rows.simps) (simp add: Let_def ls_def sw_def r_def t_def)
    have ih: "no_transmit_error (snd (send_dirty_rows dh oy wd dx dw (row + 1) buf (snd r)))
       \<and> pixel_bytes (spi_sent (snd (send_dirty_rows dh oy wd dx dw (row + 1) buf (snd r))))
           = pixel_bytes (spi_sent (snd r)) + 2 * dw * (dh - (row + 1))
       \<and> total_bytes (spi_sent (snd (send_dirty_rows dh oy wd dx dw (row + 1) buf (snd r))))
           = total_bytes (spi_sent (snd r)) + 2 * dw * (dh - (row + 1))"
      using IH[OF True ls_def sw_def r_def[unfolded t_def]] ok p(2,3) restored ne
      by (simp add: r_def t_def)
    have pb: "pixel_bytes (spi_sent (snd r)) = pixel_bytes (spi_sent s) + 2 * dw"
      and tb: "total_bytes (spi_sent (snd r)) = total_bytes (spi_sent s) + 2 * dw"
      unfolding sent t_def by (simp_all add: pixel_bytes_append total_bytes_append len)
    have arith: "2 * dw + 2 * dw * (dh - (row + 1)) = 2 * dw * (dh - row)"
    proof -
      have "dh - row = Suc (dh - (row + 1))" using True by simp
      then show ?thesis by simp
    qed
    show ?thesis
      unfolding u using ih arith pb tb by simp
  qed
qed

subsection \<open>Sending one chunk\<close>

lemma sram_set_frame: "xfer_frame s (sram_set r b s)"
  by (cases r) (simp_all add: sram_set_def xfer_frame_def)

lemma send_chunk_to_display_frame: "spi_frame s (snd (send_chunk_to_display buf c ch s))"
  unfolding send_chunk_to_display_def Let_def
  using spi_frame_trans[OF set_addr_window_frame send_chunk_loop_frame]
  by (simp add: spi_frame_refl)

lemma send_dirty_chunk_to_display_frame:
  "spi_frame s (snd (send_dirty_chunk_to_display buf c ch d s))"
  unfolding send_dirty_chunk_to_display_def Let_def
  using spi_frame_trans[OF set_addr_window_frame send_dirty_rows_frame]
  by (simp add: spi_frame_refl)

lemma copy_chunk_and_send_frame: "xfer_frame s (copy_chunk_and_send k i s)"
  unfolding copy_chunk_and_send_def Let_def
  by (auto split: option.splits
      intro!: xfer_frame_refl xfer_frame_trans[OF sram_set_frame xfer_frame_trans[OF spi_frame_xfer[OF send_chunk_to_display_frame] sram_set_frame]])

lemma copy_dirty_chunk_and_send_frame: "xfer_frame s (copy_dirty_chunk_and_send k i d s)"
  unfolding copy_dirty_chunk_and_send_def Let_def
  by (auto split: option.splits
      intro!: xfer_frame_refl xfer_frame_trans[OF sram_set_frame xfer_frame_trans[OF spi_frame_xfer[OF send_dirty_chunk_to_display_frame] sram_set_frame]])

lemma send_dirty_chunk_to_display_buffer:
  "fst (send_dirty_chunk_to_display buf c ch d s) = buf"
  by (simp add: send_dirty_chunk_to_display_def Let_def send_dirty_rows_buffer)

lemma chunk_geometry:
  assumes "unat k < 5" and "height s = word_of_nat ST7735_HEIGHT"
  shows "unat (chunk_start_y k) = 32 * unat k"
    and "unat (chunk_end_y k s) = 32 * unat k + 32"
    and "unat (chunk_end_y k s - chunk_start_y k) = 32"
proof -
  have k: "k = 0 \<or> k = 1 \<or> k = 2 \<or> k = 3 \<or> k = 4"
    using assms(1) by unat_arith
  then show "unat (chunk_start_y k) = 32 * unat k"
    and "unat (chunk_end_y k s) = 32 * unat k + 32"
    and "unat (chunk_end_y k s - chunk_start_y k) = 32"
    using assms(2)
    by (auto simp: chunk_start_y_def chunk_end_y_def Let_def CHUNK_HEIGHT_def
        SRAM_BUFFER_SIZE_def ST7735_WIDTH_def ST7735_HEIGHT_def)
qed

lemma sram_set_spi:
  "spi_sent (sram_set r b s) = spi_sent s"
  "spi_results (sram_set r b s) = spi_results s"
  "no_transmit_error (sram_set r b s) = no_transmit_error s"
  "initialized (sram_set r b s) = initialized s"
  "width (sram_set r b s) = width s"
  "height (sram_set r b s) = height s"
  by (cases r; simp add: sram_set_def no_transmit_error_def)+

lemma source_framebuffer_allocated:
  assumes "buffers_allocated s" and "unat i < 3"
  obtains src where "source_framebuffer i s = Some src"
    and "length src = ST7735_WIDTH * ST7735_HEIGHT"
proof -
  have "i = 0 \<or> i = 1 \<or> i = 2" using assms(2) by unat_arith
  then have "\<exists>src. source_framebuffer i s = Some src \<and> length src = ST7735_WIDTH * ST7735_HEIGHT"
    using assms(1) by (auto simp: buffers_allocated_def source_framebuffer_def)
  then show thesis using that by blast
qed

lemma sram_get_allocated:
  assumes "buffers_allocated s"
  obtains dst where "sram_get r s = Some dst" and "length dst = SRAM_BUFFER_SIZE div 2"
proof -
  have "\<exists>dst. sram_get r s = Some dst \<and> length dst = SRAM_BUFFER_SIZE div 2"
    using assms by (cases r) (auto simp: buffers_allocated_def sram_get_def)
  then show thesis using that by blast
qed

lemma length_memcpy:
  "off + n \<le> length src \<Longrightarrow> n \<le> length dst \<Longrightarrow> length (memcpy dst src off n) = length dst"
  by (simp add: memcpy_def)

lemma buffers_allocated_xfer:
  assumes "buffers_allocated s" and "xfer_frame s s'"
    and "map_option length (sram_buffer_a s') = Some (SRAM_BUFFER_SIZE div 2)"
    and "map_option length (sram_buffer_b s') = Some (SRAM_BUFFER_SIZE div 2)"
  shows "buffers_allocated s'"
  using assms by (simp add: buffers_allocated_def xfer_frame_def)

lemma sram_set_lengths:
  assumes "buffers_allocated s" and "length b = SRAM_BUFFER_SIZE div 2" and "xfer_frame s s1"
    and "sram_buffer_a s1 = sram_buffer_a s" and "sram_buffer_b s1 = sram_buffer_b s"
  shows "buffers_allocated (sram_set r b s1)"
proof (rule buffers_allocated_xfer[OF assms(1)])
  show "xfer_frame s (sram_set r b s1)"
    by (rule xfer_frame_trans[OF assms(3) sram_set_frame])
  show "map_option length (sram_buffer_a (sram_set r b s1)) = Some (SRAM_BUFFER_SIZE div 2)"
    using assms by (cases r) (simp_all add: sram_set_def buffers_allocated_def)
  show "map_option length (sram_buffer_b (sram_set r b s1)) = Some (SRAM_BUFFER_SIZE div 2)"
    using assms by (cases r) (simp_all add: sram_set_def buffers_allocated_def)
qed

lemma spi_frame_sram:
  "spi_frame s s' \<Longrightarrow> sram_buffer_a s' = sram_buffer_a s \<and> sram_buffer_b s' = sram_buffer_b s"
  by (simp add: spi_frame_def)

lemma copy_chunk_and_send_ok:
  assumes al: "buffers_allocated s" and ne: "no_transmit_error s"
    and k: "unat k < 5" and i: "unat i < 3"
  shows "buffers_allocated (copy_chunk_and_send k i s)
       \<and> no_transmit_error (copy_chunk_and_send k i s)
       \<and> pixel_bytes (spi_sent (copy_chunk_and_send k i s))
           = pixel_bytes (spi_sent s) + 2 * (ST7735_WIDTH * CHUNK_HEIGHT)
       \<and> total_bytes (spi_sent (copy_chunk_and_send k i s))
           = total_bytes (spi_sent s) + 11 + 2 * (ST7735_WIDTH * CHUNK_HEIGHT)"
proof -
  obtain src where src: "source_framebuffer i s = Some src"
    and lsrc: "length src = ST7735_WIDTH * ST7735_HEIGHT"
    using source_framebuffer_allocated[OF al i] by blast
  obtain dst where dst: "sram_get (target_buffer k) s = Some dst"
    and ldst: "length dst = SRAM_BUFFER_SIZE div 2"
    using sram_get_allocated[OF al] by blast
  have ini: "initialized s" and w: "width s = word_of_nat ST7735_WIDTH"
    and h: "height s = word_of_nat ST7735_HEIGHT"
    using al by (simp_all add: buffers_allocated_def)
  note g = chunk_geometry[OF k h]
  define ach where "ach = chunk_end_y k s - chunk_start_y k"
  have uach: "unat ach = 32" unfolding ach_def by (rule g(3))
  have uw: "unat (width s) = 128" by (simp add: w ST7735_WIDTH_def)
  define n where "n = unat (width s) * unat ach"
  have n: "n = 4096" by (simp add: n_def uw uach)
  define copied where "copied = memcpy dst src (unat (chunk_start_y k) * unat (width s)) n"
  have lc: "length copied = SRAM_BUFFER_SIZE div 2"
    unfolding copied_def using k lsrc ldst
    by (subst length_memcpy)
       (simp_all add: g(1) uw n ST7735_WIDTH_def ST7735_HEIGHT_def SRAM_BUFFER_SIZE_def)
  define s0 where "s0 = sram_set (target_buffer k) copied s"
  define s1 where "s1 = set_addr_window 0 (chunk_start_y k) (width s0 - 1)
                          (chunk_start_y k + ach - 1) s0"
  define r where "r = send_chunk_loop n 0 copied s1"
  have ne0: "no_transmit_error s0" by (simp add: s0_def sram_set_spi ne)
  have sw: "no_transmit_error s1"
    "pixel_bytes (spi_sent s1) = pixel_bytes (spi_sent s)"
    "total_bytes (spi_sent s1) = total_bytes (spi_sent s) + 11"
    unfolding s1_def using set_addr_window_ok[OF ne0] by (simp_all add: s0_def sram_set_spi)
  have loop: "fst r = copied" "no_transmit_error (snd r)"
    "pixel_bytes (spi_sent (snd r)) = pixel_bytes (spi_sent s1) + 2 * n"
    "total_bytes (spi_sent (snd r)) = total_bytes (spi_sent s1) + 2 * n"
    unfolding r_def using send_chunk_loop_ok[OF sw(1), of n copied 0] lc
    by (simp_all add: n SRAM_BUFFER_SIZE_def)
  have send: "send_chunk_to_display copied (ucast k) ach s0 = r"
    unfolding send_chunk_to_display_def Let_def r_def s1_def n_def
    by (simp add: s0_def sram_set_spi ini chunk_start_y_def)
  have res: "copy_chunk_and_send k i s = sram_set (target_buffer k) copied (snd r)"
    unfolding copy_chunk_and_send_def
    by (simp add: ini src dst Let_def ach_def[symmetric] n_def[symmetric] copied_def[symmetric]
        s0_def[symmetric] send loop(1))
  have f01: "spi_frame s0 (snd r)"
    unfolding r_def s1_def
    by (rule spi_frame_trans[OF set_addr_window_frame send_chunk_loop_frame])
  have al0: "buffers_allocated s0"
    unfolding s0_def by (rule sram_set_lengths[OF al lc xfer_frame_refl refl refl])
  have al': "buffers_allocated (sram_set (target_buffer k) copied (snd r))"
    by (rule sram_set_lengths[OF al0 lc spi_frame_xfer[OF f01]])
       (simp_all add: spi_frame_sram[OF f01])
  show ?thesis
    unfolding res using al' loop sw
    by (simp add: sram_set_spi n ST7735_WIDTH_def CHUNK_HEIGHT_def SRAM_BUFFER_SIZE_def)
qed

lemma unat_max_word: "unat (max a b) = max (unat a) (unat (b::uint16_t))"
  by (simp add: max_def word_le_nat_alt)

lemma send_dirty_chunk_to_display_unfold:
  assumes "initialized s" and "start = c * word_of_nat CHUNK_HEIGHT"
    and "ds = max (rect_y d) start" and "de = min (rect_y d + rect_h d) (start + ch)"
    and "\<not> ds \<ge> de"
  shows "send_dirty_chunk_to_display buf c ch d s =
      send_dirty_rows (unat (de - ds)) (unat (ds - start)) (unat (width s)) (unat (rect_x d))
        (unat (rect_w d)) 0 buf
        (set_addr_window (rect_x d) ds (rect_x d + rect_w d - 1) (ds + (de - ds) - 1) s)"
  using assms by (simp add: send_dirty_chunk_to_display_def Let_def)

lemma copy_dirty_chunk_and_send_unfold:
  assumes "initialized s" and "source_framebuffer i s = Some src"
    and "sram_get (target_buffer k) s = Some dst"
    and "\<not> max (rect_y d) (chunk_start_y k) \<ge> min (rect_y d + rect_h d) (chunk_end_y k s)"
    and "copied = memcpy dst src (unat (chunk_start_y k) * unat (width s))
                    (unat (width s) * unat (chunk_end_y k s - chunk_start_y k))"
    and "r = send_dirty_chunk_to_display copied (ucast k) (chunk_end_y k s - chunk_start_y k) d
               (sram_set (target_buffer k) copied s)"
  shows "copy_dirty_chunk_and_send k i d s = sram_set (target_buffer k) (fst r) (snd r)"
  using assms by (simp add: copy_dirty_chunk_and_send_def Let_def)

lemma copy_dirty_chunk_and_send_ok:
  assumes al: "buffers_allocated s" and ne: "no_transmit_error s"
    and k: "unat k < 5" and i: "unat i < 3" and d: "rect_on_screen d"
  shows "buffers_allocated (copy_dirty_chunk_and_send k i d s)
       \<and> no_transmit_error (copy_dirty_chunk_and_send k i d s)
       \<and> pixel_bytes (spi_sent (copy_dirty_chunk_and_send k i d s))
           = pixel_bytes (spi_sent s) + 2 * unat (rect_w d) * rows_in_chunk d (unat k)
       \<and> total_bytes (spi_sent (copy_dirty_chunk_and_send k i d s))
           = total_bytes (spi_sent s) + (if rows_in_chunk d (unat k) = 0 then 0 else 11)
             + 2 * unat (rect_w d) * rows_in_chunk d (unat k)"
proof -
  obtain src where src: "source_framebuffer i s = Some src"
    and lsrc: "length src = ST7735_WIDTH * ST7735_HEIGHT"
    using source_framebuffer_allocated[OF al i] by blast
  obtain dst where dst: "sram_get (target_buffer k) s = Some dst"
    and ldst: "length dst = SRAM_BUFFER_SIZE div 2"
    using sram_get_allocated[OF al] by blast
  have ini: "initialized s" and w: "width s = word_of_nat ST7735_WIDTH"
    and h: "height s = word_of_nat ST7735_HEIGHT"
    using al by (simp_all add: buffers_allocated_def)
  note g = chunk_geometry[OF k h]
  define ach where "ach = chunk_end_y k s - chunk_start_y k"
  have uach: "unat ach = 32" unfolding ach_def by (rule g(3))
  have uw: "unat (width s) = 128" by (simp add: w ST7735_WIDTH_def)
  have dx: "unat (rect_x d) + unat (rect_w d) \<le> 128"
    and dy: "unat (rect_y d) + unat (rect_h d) \<le> 160"
    using d by (simp_all add: rect_on_screen_def ST7735_WIDTH_def ST7735_HEIGHT_def)
  define ds where "ds = max (rect_y d) (chunk_start_y k)"
  define de where "de = min (rect_y d + rect_h d) (chunk_end_y k s)"
  have uyh: "unat (rect_y d + rect_h d) = unat (rect_y d) + unat (rect_h d)"
    using dy by (simp add: unat_add_lem[THEN iffD1])
  have uds: "unat ds = max (unat (rect_y d)) (32 * unat k)"
    unfolding ds_def by (simp add: unat_max_word g(1))
  have ude: "unat de = min (unat (rect_y d) + unat (rect_h d)) (32 * unat k + 32)"
    unfolding de_def by (simp add: unat_min_word g(2) uyh)
  have rows: "rows_in_chunk d (unat k) = unat de - unat ds"
    by (simp add: rows_in_chunk_def uds ude CHUNK_HEIGHT_def SRAM_BUFFER_SIZE_def ST7735_WIDTH_def)
  have endy: "chunk_start_y k + ach = chunk_end_y k s" by (simp add: ach_def)
  show ?thesis
  proof (cases "ds \<ge> de")
    case True
    then have "copy_dirty_chunk_and_send k i d s = s"
      unfolding copy_dirty_chunk_and_send_def
      by (simp add: ini src Let_def ds_def[symmetric] de_def[symmetric])
    moreover have "rows_in_chunk d (unat k) = 0"
      using True by (simp add: rows word_le_nat_alt)
    ultimately show ?thesis using al ne by simp
  next
    case False
    then have lt: "unat ds < unat de" by (simp add: word_le_nat_alt)
    define dh where "dh = de - ds"
    have udh: "unat dh = unat de - unat ds"
      unfolding dh_def using lt by (simp add: unat_sub word_le_nat_alt)
    define oy where "oy = ds - chunk_start_y k"
    have uoy: "unat oy = unat ds - 32 * unat k"
      unfolding oy_def using uds g(1) by (simp add: unat_sub word_le_nat_alt)
    define n where "n = unat (width s) * unat ach"
    have n: "n = 4096" by (simp add: n_def uw uach)
    define copied where "copied = memcpy dst src (unat (chunk_start_y k) * unat (width s)) n"
    have lc: "length copied = SRAM_BUFFER_SIZE div 2"
      unfolding copied_def using k lsrc ldst
      by (subst length_memcpy)
         (simp_all add: g(1) uw n ST7735_WIDTH_def ST7735_HEIGHT_def SRAM_BUFFER_SIZE_def)
    define s0 where "s0 = sram_set (target_buffer k) copied s"
    define s1 where "s1 = set_addr_window (rect_x d) ds (rect_x d + rect_w d - 1) (ds + dh - 1) s0"
    define r where "r = send_dirty_rows (unat dh) (unat oy) (unat (width s)) (unat (rect_x d))
                          (unat (rect_w d)) 0 copied s1"
    have ne0: "no_transmit_error s0" by (simp add: s0_def sram_set_spi ne)
    have sw: "no_transmit_error s1"
      "pixel_bytes (spi_sent s1) = pixel_bytes (spi_sent s)"
      "total_bytes (spi_sent s1) = total_bytes (spi_sent s) + 11"
      unfolding s1_def using set_addr_window_ok[OF ne0] by (simp_all add: s0_def sram_set_spi)
    have fit: "(unat oy + unat dh) * unat (width s) \<le> length copied"
    proof -
      have "unat oy + unat dh \<le> 32" using uoy udh uds ude lt by simp
      then have "(unat oy + unat dh) * 128 \<le> 32 * 128" by (rule mult_le_mono1)
      then show ?thesis by (simp add: uw lc SRAM_BUFFER_SIZE_def)
    qed
    have loop: "fst r = copied" "no_transmit_error (snd r)"
      "pixel_bytes (spi_sent (snd r)) = pixel_bytes (spi_sent s1) + 2 * unat (rect_w d) * unat dh"
      "total_bytes (spi_sent (snd r)) = total_bytes (spi_sent s1) + 2 * unat (rect_w d) * unat dh"
      unfolding r_def using send_dirty_rows_ok[OF sw(1) fit, of "unat (rect_x d)" "unat (rect_w d)" 0] dx
      by (simp_all add: uw send_dirty_rows_buffer)
    have ini0: "initialized s0" and w0: "width s0 = width s"
      by (simp_all add: s0_def sram_set_spi ini)
    have ds': "ds = max (rect_y d) (chunk_start_y k)" by (rule ds_def)
    have de': "de = min (rect_y d + rect_h d) (chunk_start_y k + ach)"
      unfolding endy by (rule de_def)
    have send: "send_dirty_chunk_to_display copied (ucast k) ach d s0 = r"
      unfolding r_def s1_def dh_def oy_def w0[symmetric]
      by (rule send_dirty_chunk_to_display_unfold[OF ini0 chunk_start_y_def ds' de' False])
    have nint: "\<not> max (rect_y d) (chunk_start_y k) \<ge> min (rect_y d + rect_h d) (chunk_end_y k s)"
      using False by (simp add: ds_def de_def)
    have "copy_dirty_chunk_and_send k i d s =
        sram_set (target_buffer k) (fst r) (snd r)"
      by (rule copy_dirty_chunk_and_send_unfold[OF ini src dst nint])
         (simp_all add: copied_def n_def ach_def send[symmetric] s0_def)
    then have res: "copy_dirty_chunk_and_send k i d s = sram_set (target_buffer k) copied (snd r)"
      by (simp add: loop(1))
    have f01: "spi_frame s0 (snd r)"
      unfolding r_def s1_def
      by (rule spi_frame_trans[OF set_addr_window_frame send_dirty_rows_frame])
    have al0: "buffers_allocated s0"
      unfolding s0_def by (rule sram_set_lengths[OF al lc xfer_frame_refl refl refl])
    have al': "buffers_allocated (sram_set (target_buffer k) copied (snd r))"
      by (rule sram_set_lengths[OF al0 lc spi_frame_xfer[OF f01]])
         (simp_all add: spi_frame_sram[OF f01])
    have nz: "rows_in_chunk d (unat k) \<noteq> 0" using lt rows by simp
    show ?thesis
      unfolding res using al' loop sw nz
      by (simp add: sram_set_spi rows udh)
  qed
qed

subsection \<open>The buffer-state invariant\<close>

lemma spi_frameD:
  assumes "spi_frame s s'"
  shows "initialized s' = initialized s"
    and "spi_initialized s' = spi_initialized s"
    and "width s' = width s"
    and "height s' = height s"
    and "x_offset s' = x_offset s"
    and "y_offset s' = y_offset s"
    and "framebuffer_a s' = framebuffer_a s"
    and "framebuffer_b s' = framebuffer_b s"
    and "framebuffer_c s' = framebuffer_c s"
    and "current_framebuffer s' = current_framebuffer s"
    and "buffer_states s' = buffer_states s"
    and "render_buffer_idx s' = render_buffer_idx s"
    and "transfer_buffer_idx s' = transfer_buffer_idx s"
    and "framebuffer_enabled s' = framebuffer_enabled s"
    and "sram_buffer_a s' = sram_buffer_a s"
    and "sram_buffer_b s' = sram_buffer_b s"
    and "current_sram_buffer s' = current_sram_buffer s"
    and "display_task_handle s' = display_task_handle s"
    and "display_queue s' = display_queue s"
    and "display_done_semaphore s' = display_done_semaphore s"
    and "display_in_progress s' = display_in_progress s"
    and "display_done_flag s' = display_done_flag s"
    and "current_chunk s' = current_chunk s"
    and "total_chunks s' = total_chunks s"
    and "dirty_rect s' = dirty_rect s"
    and "dirty_rect_enabled s' = dirty_rect_enabled s"
    and "force_full_redraw s' = force_full_redraw s"
  using assms by (simp_all add: spi_frame_def)

lemma xfer_frameD:
  assumes "xfer_frame s s'"
  shows "initialized s' = initialized s"
    and "spi_initialized s' = spi_initialized s"
    and "width s' = width s"
    and "height s' = height s"
    and "x_offset s' = x_offset s"
    and "y_offset s' = y_offset s"
    and "framebuffer_a s' = framebuffer_a s"
    and "framebuffer_b s' = framebuffer_b s"
    and "framebuffer_c s' = framebuffer_c s"
    and "current_framebuffer s' = current_framebuffer s"
    and "buffer_states s' = buffer_states s"
    and "render_buffer_idx s' = render_buffer_idx s"
    and "transfer_buffer_idx s' = transfer_buffer_idx s"
    and "framebuffer_enabled s' = framebuffer_enabled s"
    and "current_sram_buffer s' = current_sram_buffer s"
    and "display_task_handle s' = display_task_handle s"
    and "display_queue s' = display_queue s"
    and "display_done_semaphore s' = display_done_semaphore s"
    and "display_in_progress s' = display_in_progress s"
    and "display_done_flag s' = display_done_flag s"
    and "current_chunk s' = current_chunk s"
    and "total_chunks s' = total_chunks s"
    and "dirty_rect s' = dirty_rect s"
    and "dirty_rect_enabled s' = dirty_rect_enabled s"
    and "force_full_redraw s' = force_full_redraw s"
  using assms by (simp_all add: xfer_frame_def)

lemma init_sequence_frame: "spi_frame s (init_sequence s)"
  unfolding init_sequence_def in_order_def fold_simps
  by (intro spi_frame_trans[OF _ write_command_frame] spi_frame_trans[OF _ write_data_frame] spi_frame_refl)

lemmas init_sequence_fields [simp] = spi_frameD[OF init_sequence_frame]

lemma transfer_chunk_frame: "xfer_frame s (transfer_chunk msg s)"
  by (simp add: transfer_chunk_def copy_chunk_and_send_frame copy_dirty_chunk_and_send_frame)

lemmas transfer_chunk_fields [simp] = xfer_frameD[OF transfer_chunk_frame]

lemma all_less_3: "(\<forall>i<3. P i) = (P 0 \<and> P 1 \<and> P (2::nat))"
proof -
  have "\<And>i::nat. i < 3 \<longleftrightarrow> i = 0 \<or> i = 1 \<or> i = 2" by auto
  then show ?thesis by auto
qed

lemma list3:
  assumes "length bs = 3"
  obtains a b c where "bs = [a, b, c]"
  using assms by (cases bs; cases "tl bs"; cases "tl (tl bs)") auto

lemma nth3 [simp]:
  "[a, b, c] ! 0 = a" "[a, b, c] ! 1 = b" "[a, b, c] ! 2 = c"
  by simp_all

lemma upd3 [simp]:
  "[a, b, c][0 := v] = [v, b, c]" "[a, b, c][1 := v] = [a, v, c]" "[a, b, c][2 := v] = [a, b, v]"
  by (simp_all add: numeral_2_eq_2)

lemma idx3:
  assumes "unat (i::uint8_t) < 3"
  shows "i = 0 \<or> i = 1 \<or> i = 2"
  using assms by unat_arith

lemma inv_begin:
  assumes "TFT7735V_begin env (TFT7735V_new d0 results) = (True, s)"
  shows "pipeline_inv s"
  using assms
  by (auto simp: TFT7735V_begin_def TFT7735V_new_def Let_def init_framebuffer_def
      init_double_buffering_def pipeline_inv_def all_less_3 split: if_splits)


lemma xQueueSend_empty:
  assumes "display_queue s = Some []"
  shows "xQueueSend m s = (True, s\<lparr>display_queue := Some [m]\<rparr>)"
  using assms by (simp add: xQueueSend_def queue_depth_def)

lemma xSemaphoreTake_fields [simp]:
    "initialized (xSemaphoreTake s) = initialized s"
    "spi_initialized (xSemaphoreTake s) = spi_initialized s"
    "width (xSemaphoreTake s) = width s"
    "height (xSemaphoreTake s) = height s"
    "x_offset (xSemaphoreTake s) = x_offset s"
    "y_offset (xSemaphoreTake s) = y_offset s"
    "framebuffer_a (xSemaphoreTake s) = framebuffer_a s"
    "framebuffer_b (xSemaphoreTake s) = framebuffer_b s"
    "framebuffer_c (xSemaphoreTake s) = framebuffer_c s"
    "current_framebuffer (xSemaphoreTake s) = current_framebuffer s"
    "buffer_states (xSemaphoreTake s) = buffer_states s"
    "render_buffer_idx (xSemaphoreTake s) = render_buffer_idx s"
    "transfer_buffer_idx (xSemaphoreTake s) = transfer_buffer_idx s"
    "framebuffer_enabled (xSemaphoreTake s) = framebuffer_enabled s"
    "sram_buffer_a (xSemaphoreTake s) = sram_buffer_a s"
    "sram_buffer_b (xSemaphoreTake s) = sram_buffer_b s"
    "current_sram_buffer (xSemaphoreTake s) = current_sram_buffer s"
    "display_task_handle (xSemaphoreTake s) = display_task_handle s"
    "display_queue (xSemaphoreTake s) = display_queue s"
    "display_in_progress (xSemaphoreTake s) = display_in_progress s"
    "display_done_flag (xSemaphoreTake s) = display_done_flag s"
    "current_chunk (xSemaphoreTake s) = current_chunk s"
    "total_chunks (xSemaphoreTake s) = total_chunks s"
    "dirty_rect (xSemaphoreTake s) = dirty_rect s"
    "dirty_rect_enabled (xSemaphoreTake s) = dirty_rect_enabled s"
    "force_full_redraw (xSemaphoreTake s) = force_full_redraw s"
    "spi_sent (xSemaphoreTake s) = spi_sent s"
    "spi_results (xSemaphoreTake s) = spi_results s"
  by (simp_all add: xSemaphoreTake_def split: option.splits)

lemma xSemaphoreGive_fields [simp]:
    "initialized (xSemaphoreGive s) = initialized s"
    "spi_initialized (xSemaphoreGive s) = spi_initialized s"
    "width (xSemaphoreGive s) = width s"
    "height (xSemaphoreGive s) = height s"
    "x_offset (xSemaphoreGive s) = x_offset s"
    "y_offset (xSemaphoreGive s) = y_offset s"
    "framebuffer_a (xSemaphoreGive s) = framebuffer_a s"
    "framebuffer_b (xSemaphoreGive s) = framebuffer_b s"
    "framebuffer_c (xSemaphoreGive s) = framebuffer_c s"
    "current_framebuffer (xSemaphoreGive s) = current_framebuffer s"
    "buffer_states (xSemaphoreGive s) = buffer_states s"
    "render_buffer_idx (xSemaphoreGive s) = render_buffer_idx s"
    "transfer_buffer_idx (xSemaphoreGive s) = transfer_buffer_idx s"
    "framebuffer_enabled (xSemaphoreGive s) = framebuffer_enabled s"
    "sram_buffer_a (xSemaphoreGive s) = sram_buffer_a s"
    "sram_buffer_b (xSemaphoreGive s) = sram_buffer_b s"
    "current_sram_buffer (xSemaphoreGive s) = current_sram_buffer s"
    "display_task_handle (xSemaphoreGive s) = display_task_handle s"
    "display_queue (xSemaphoreGive s) = display_queue s"
    "display_in_progress (xSemaphoreGive s) = display_in_progress s"
    "display_done_flag (xSemaphoreGive s) = display_done_flag s"
    "current_chunk (xSemaphoreGive s) = current_chunk s"
    "total_chunks (xSemaphoreGive s) = total_chunks s"
    "dirty_rect (xSemaphoreGive s) = dirty_rect s"
    "dirty_rect_enabled (xSemaphoreGive s) = dirty_rect_enabled s"
    "force_full_redraw (xSemaphoreGive s) = force_full_redraw s"
    "spi_sent (xSemaphoreGive s) = spi_sent s"
    "spi_results (xSemaphoreGive s) = spi_results s"
  by (simp_all add: xSemaphoreGive_def split: option.splits)

lemma select_framebuffer_fields [simp]:
    "initialized (select_framebuffer i s) = initialized s"
    "spi_initialized (select_framebuffer i s) = spi_initialized s"
    "width (select_framebuffer i s) = width s"
    "height (select_framebuffer i s) = height s"
    "x_offset (select_framebuffer i s) = x_offset s"
    "y_offset (select_framebuffer i s) = y_offset s"
    "framebuffer_a (select_framebuffer i s) = framebuffer_a s"
    "framebuffer_b (select_framebuffer i s) = framebuffer_b s"
    "framebuffer_c (select_framebuffer i s) = framebuffer_c s"
    "buffer_states (select_framebuffer i s) = buffer_states s"
    "render_buffer_idx (select_framebuffer i s) = render_buffer_idx s"
    "transfer_buffer_idx (select_framebuffer i s) = transfer_buffer_idx s"
    "framebuffer_enabled (select_framebuffer i s) = framebuffer_enabled s"
    "sram_buffer_a (select_framebuffer i s) = sram_buffer_a s"
    "sram_buffer_b (select_framebuffer i s) = sram_buffer_b s"
    "current_sram_buffer (select_framebuffer i s) = current_sram_buffer s"
    "display_task_handle (select_framebuffer i s) = display_task_handle s"
    "display_queue (select_framebuffer i s) = display_queue s"
    "display_done_semaphore (select_framebuffer i s) = display_done_semaphore s"
    "display_in_progress (select_framebuffer i s) = display_in_progress s"
    "display_done_flag (select_framebuffer i s) = display_done_flag s"
    "current_chunk (select_framebuffer i s) = current_chunk s"
    "total_chunks (select_framebuffer i s) = total_chunks s"
    "dirty_rect (select_framebuffer i s) = dirty_rect s"
    "dirty_rect_enabled (select_framebuffer i s) = dirty_rect_enabled s"
    "force_full_redraw (select_framebuffer i s) = force_full_redraw s"
    "spi_sent (select_framebuffer i s) = spi_sent s"
    "spi_results (select_framebuffer i s) = spi_results s"
  by (simp_all add: select_framebuffer_def)

lemma inv_sem:
  "pipeline_inv (xSemaphoreTake s) = pipeline_inv s"
  "pipeline_inv (xSemaphoreGive s) = pipeline_inv s"
  by (simp_all add: pipeline_inv_def)

lemma idle_shape:
  assumes "pipeline_inv s" and "\<not> display_in_progress s"
  shows "display_queue s = Some []
     \<and> ((render_buffer_idx s = 0
          \<and> buffer_states s = [BUFFER_STATE_RENDERING, BUFFER_STATE_IDLE, BUFFER_STATE_IDLE])
        \<or> (render_buffer_idx s = 1
          \<and> buffer_states s = [BUFFER_STATE_IDLE, BUFFER_STATE_RENDERING, BUFFER_STATE_IDLE])
        \<or> (render_buffer_idx s = 2
          \<and> buffer_states s = [BUFFER_STATE_IDLE, BUFFER_STATE_IDLE, BUFFER_STATE_RENDERING]))"
proof -
  from assms obtain a b c where bs: "buffer_states s = [a, b, c]"
    using list3[of "buffer_states s"] by (auto simp: pipeline_inv_def)
  from assms have "unat (render_buffer_idx s) < 3" by (simp add: pipeline_inv_def)
  then have r: "render_buffer_idx s = 0 \<or> render_buffer_idx s = 1 \<or> render_buffer_idx s = 2"
    by (rule idx3)
  have facts: "display_queue s = Some []"
    "a \<noteq> BUFFER_STATE_TRANSFERRING" "b \<noteq> BUFFER_STATE_TRANSFERRING" "c \<noteq> BUFFER_STATE_TRANSFERRING"
    "(a = BUFFER_STATE_RENDERING) = (0 = unat (render_buffer_idx s))"
    "(b = BUFFER_STATE_RENDERING) = (1 = unat (render_buffer_idx s))"
    "(c = BUFFER_STATE_RENDERING) = (2 = unat (render_buffer_idx s))"
    using assms by (simp_all add: pipeline_inv_def all_less_3 bs)
  show ?thesis
    using r
  proof (elim disjE)
    assume "render_buffer_idx s = 0"
    then show ?thesis using facts by (cases a; cases b; cases c) (simp_all add: bs)
  next
    assume "render_buffer_idx s = 1"
    then show ?thesis using facts by (cases a; cases b; cases c) (simp_all add: bs)
  next
    assume "render_buffer_idx s = 2"
    then show ?thesis using facts by (cases a; cases b; cases c) (simp_all add: bs)
  qed
qed

lemma inv_display:
  assumes "pipeline_inv s"
  shows "pipeline_inv (snd (display s))"
proof (cases "framebuffer_enabled s \<and> current_framebuffer s \<noteq> None \<and> initialized s
              \<and> \<not> display_in_progress s \<and> display_queue s \<noteq> None")
  case False
  then have "snd (display s) = s"
    by (auto simp: display_def)
  then show ?thesis using assms by simp
next
  case True
  then have nip: "\<not> display_in_progress s" by simp
  note sh = idle_shape[OF assms nip]
  from sh have q: "display_queue s = Some []" by simp
  from sh consider
      "render_buffer_idx s = 0" "buffer_states s = [BUFFER_STATE_RENDERING, BUFFER_STATE_IDLE, BUFFER_STATE_IDLE]"
    | "render_buffer_idx s = 1" "buffer_states s = [BUFFER_STATE_IDLE, BUFFER_STATE_RENDERING, BUFFER_STATE_IDLE]"
    | "render_buffer_idx s = 2" "buffer_states s = [BUFFER_STATE_IDLE, BUFFER_STATE_IDLE, BUFFER_STATE_RENDERING]"
    by blast
  then show ?thesis
  proof cases
    case 1
    then show ?thesis using True q
      by (simp add: display_def Let_def find_idle_buffer_def xQueueSend_def queue_depth_def
          swap_for_present_def first_message_def pipeline_inv_def all_less_3)
  next
    case 2
    then show ?thesis using True q
      by (simp add: display_def Let_def find_idle_buffer_def xQueueSend_def queue_depth_def
          swap_for_present_def first_message_def pipeline_inv_def all_less_3)
  next
    case 3
    then show ?thesis using True q
      by (simp add: display_def Let_def find_idle_buffer_def xQueueSend_def queue_depth_def
          swap_for_present_def first_message_def pipeline_inv_def all_less_3)
  qed
qed


lemma busy_shape:
  assumes "pipeline_inv s" and "display_in_progress s"
  shows "\<exists>m. display_queue s = Some [m]
     \<and> ((render_buffer_idx s = 0 \<and> source_buffer_idx m = 1
            \<and> buffer_states s = [BUFFER_STATE_RENDERING, BUFFER_STATE_TRANSFERRING, BUFFER_STATE_IDLE])
        \<or> (render_buffer_idx s = 0 \<and> source_buffer_idx m = 2
            \<and> buffer_states s = [BUFFER_STATE_RENDERING, BUFFER_STATE_IDLE, BUFFER_STATE_TRANSFERRING])
        \<or> (render_buffer_idx s = 1 \<and> source_buffer_idx m = 0
            \<and> buffer_states s = [BUFFER_STATE_TRANSFERRING, BUFFER_STATE_RENDERING, BUFFER_STATE_IDLE])
        \<or> (render_buffer_idx s = 1 \<and> source_buffer_idx m = 2
            \<and> buffer_states s = [BUFFER_STATE_IDLE, BUFFER_STATE_RENDERING, BUFFER_STATE_TRANSFERRING])
        \<or> (render_buffer_idx s = 2 \<and> source_buffer_idx m = 0
            \<and> buffer_states s = [BUFFER_STATE_TRANSFERRING, BUFFER_STATE_IDLE, BUFFER_STATE_RENDERING])
        \<or> (render_buffer_idx s = 2 \<and> source_buffer_idx m = 1
            \<and> buffer_states s = [BUFFER_STATE_IDLE, BUFFER_STATE_TRANSFERRING, BUFFER_STATE_RENDERING]))"
proof -
  from assms obtain m where m: "display_queue s = Some [m]" "unat (source_buffer_idx m) < 3"
    and tr: "\<forall>i<3. (buffer_states s ! i = BUFFER_STATE_TRANSFERRING) = (i = unat (source_buffer_idx m))"
    by (auto simp: pipeline_inv_def)
  from assms obtain a b c where bs: "buffer_states s = [a, b, c]"
    using list3[of "buffer_states s"] by (auto simp: pipeline_inv_def)
  from assms have "unat (render_buffer_idx s) < 3" by (simp add: pipeline_inv_def)
  then have r: "render_buffer_idx s = 0 \<or> render_buffer_idx s = 1 \<or> render_buffer_idx s = 2"
    by (rule idx3)
  have t: "source_buffer_idx m = 0 \<or> source_buffer_idx m = 1 \<or> source_buffer_idx m = 2"
    using m(2) by (rule idx3)
  have facts:
    "(a = BUFFER_STATE_TRANSFERRING) = (0 = unat (source_buffer_idx m))"
    "(b = BUFFER_STATE_TRANSFERRING) = (1 = unat (source_buffer_idx m))"
    "(c = BUFFER_STATE_TRANSFERRING) = (2 = unat (source_buffer_idx m))"
    "(a = BUFFER_STATE_RENDERING) = (0 = unat (render_buffer_idx s))"
    "(b = BUFFER_STATE_RENDERING) = (1 = unat (render_buffer_idx s))"
    "(c = BUFFER_STATE_RENDERING) = (2 = unat (render_buffer_idx s))"
    using assms tr by (simp_all add: pipeline_inv_def all_less_3 bs)
  have "(render_buffer_idx s = 0 \<and> source_buffer_idx m = 1
            \<and> buffer_states s = [BUFFER_STATE_RENDERING, BUFFER_STATE_TRANSFERRING, BUFFER_STATE_IDLE])
        \<or> (render_buffer_idx s = 0 \<and> source_buffer_idx m = 2
            \<and> buffer_states s = [BUFFER_STATE_RENDERING, BUFFER_STATE_IDLE, BUFFER_STATE_TRANSFERRING])
        \<or> (render_buffer_idx s = 1 \<and> source_buffer_idx m = 0
            \<and> buffer_states s = [BUFFER_STATE_TRANSFERRING, BUFFER_STATE_RENDERING, BUFFER_STATE_IDLE])
        \<or> (render_buffer_idx s = 1 \<and> source_buffer_idx m = 2
            \<and> buffer_states s = [BUFFER_STATE_IDLE, BUFFER_STATE_RENDERING, BUFFER_STATE_TRANSFERRING])
        \<or> (render_buffer_idx s = 2 \<and> source_buffer_idx m = 0
            \<and> buffer_states s = [BUFFER_STATE_TRANSFERRING, BUFFER_STATE_IDLE, BUFFER_STATE_RENDERING])
        \<or> (render_buffer_idx s = 2 \<and> source_buffer_idx m = 1
            \<and> buffer_states s = [BUFFER_STATE_IDLE, BUFFER_STATE_TRANSFERRING, BUFFER_STATE_RENDERING])"
    using r t
    by (elim disjE; cases a; cases b; cases c; insert facts; simp add: bs)
  then show ?thesis using m(1) by blast
qed

lemma inv_swapBuffers:
  assumes "pipeline_inv s"
  shows "pipeline_inv (swapBuffers s)"
proof (cases "display_in_progress s")
  case False
  note sh = idle_shape[OF assms False]
  from sh consider
      "render_buffer_idx s = 0" "buffer_states s = [BUFFER_STATE_RENDERING, BUFFER_STATE_IDLE, BUFFER_STATE_IDLE]"
    | "render_buffer_idx s = 1" "buffer_states s = [BUFFER_STATE_IDLE, BUFFER_STATE_RENDERING, BUFFER_STATE_IDLE]"
    | "render_buffer_idx s = 2" "buffer_states s = [BUFFER_STATE_IDLE, BUFFER_STATE_IDLE, BUFFER_STATE_RENDERING]"
    by blast
  then show ?thesis
    using False sh
    by cases (simp_all add: swapBuffers_def Let_def find_idle_buffer_def pipeline_inv_def all_less_3)
next
  case True
  from busy_shape[OF assms True] obtain m where q: "display_queue s = Some [m]"
    and sh: "(render_buffer_idx s = 0 \<and> source_buffer_idx m = 1
            \<and> buffer_states s = [BUFFER_STATE_RENDERING, BUFFER_STATE_TRANSFERRING, BUFFER_STATE_IDLE])
        \<or> (render_buffer_idx s = 0 \<and> source_buffer_idx m = 2
            \<and> buffer_states s = [BUFFER_STATE_RENDERING, BUFFER_STATE_IDLE, BUFFER_STATE_TRANSFERRING])
        \<or> (render_buffer_idx s = 1 \<and> source_buffer_idx m = 0
            \<and> buffer_states s = [BUFFER_STATE_TRANSFERRING, BUFFER_STATE_RENDERING, BUFFER_STATE_IDLE])
        \<or> (render_buffer_idx s = 1 \<and> source_buffer_idx m = 2
            \<and> buffer_states s = [BUFFER_STATE_IDLE, BUFFER_STATE_RENDERING, BUFFER_STATE_TRANSFERRING])
        \<or> (render_buffer_idx s = 2 \<and> source_buffer_idx m = 0
            \<and> buffer_states s = [BUFFER_STATE_TRANSFERRING, BUFFER_STATE_IDLE, BUFFER_STATE_RENDERING])
        \<or> (render_buffer_idx s = 2 \<and> source_buffer_idx m = 1
            \<and> buffer_states s = [BUFFER_STATE_IDLE, BUFFER_STATE_TRANSFERRING, BUFFER_STATE_RENDERING])" by blast
  from sh consider
      "render_buffer_idx s = 0" "source_buffer_idx m = 1" "buffer_states s = [BUFFER_STATE_RENDERING, BUFFER_STATE_TRANSFERRING, BUFFER_STATE_IDLE]"
    | "render_buffer_idx s = 0" "source_buffer_idx m = 2" "buffer_states s = [BUFFER_STATE_RENDERING, BUFFER_STATE_IDLE, BUFFER_STATE_TRANSFERRING]"
    | "render_buffer_idx s = 1" "source_buffer_idx m = 0" "buffer_states s = [BUFFER_STATE_TRANSFERRING, BUFFER_STATE_RENDERING, BUFFER_STATE_IDLE]"
    | "render_buffer_idx s = 1" "source_buffer_idx m = 2" "buffer_states s = [BUFFER_STATE_IDLE, BUFFER_STATE_RENDERING, BUFFER_STATE_TRANSFERRING]"
    | "render_buffer_idx s = 2" "source_buffer_idx m = 0" "buffer_states s = [BUFFER_STATE_TRANSFERRING, BUFFER_STATE_IDLE, BUFFER_STATE_RENDERING]"
    | "render_buffer_idx s = 2" "source_buffer_idx m = 1" "buffer_states s = [BUFFER_STATE_IDLE, BUFFER_STATE_TRANSFERRING, BUFFER_STATE_RENDERING]"
    by blast
  then show ?thesis
    using True q
    by cases (simp_all add: swapBuffers_def Let_def find_idle_buffer_def pipeline_inv_def all_less_3)
qed


lemma inv_process_message:
  assumes "pipeline_inv s" and "display_in_progress s" and q: "display_queue s = Some [m]"
  shows "pipeline_inv (process_message m (s\<lparr>display_queue := Some []\<rparr>))"
proof -
  from busy_shape[OF assms(1,2)] q have sh: "(render_buffer_idx s = 0 \<and> source_buffer_idx m = 1
            \<and> buffer_states s = [BUFFER_STATE_RENDERING, BUFFER_STATE_TRANSFERRING, BUFFER_STATE_IDLE])
        \<or> (render_buffer_idx s = 0 \<and> source_buffer_idx m = 2
            \<and> buffer_states s = [BUFFER_STATE_RENDERING, BUFFER_STATE_IDLE, BUFFER_STATE_TRANSFERRING])
        \<or> (render_buffer_idx s = 1 \<and> source_buffer_idx m = 0
            \<and> buffer_states s = [BUFFER_STATE_TRANSFERRING, BUFFER_STATE_RENDERING, BUFFER_STATE_IDLE])
        \<or> (render_buffer_idx s = 1 \<and> source_buffer_idx m = 2
            \<and> buffer_states s = [BUFFER_STATE_IDLE, BUFFER_STATE_RENDERING, BUFFER_STATE_TRANSFERRING])
        \<or> (render_buffer_idx s = 2 \<and> source_buffer_idx m = 0
            \<and> buffer_states s = [BUFFER_STATE_TRANSFERRING, BUFFER_STATE_IDLE, BUFFER_STATE_RENDERING])
        \<or> (render_buffer_idx s = 2 \<and> source_buffer_idx m = 1
            \<and> buffer_states s = [BUFFER_STATE_IDLE, BUFFER_STATE_TRANSFERRING, BUFFER_STATE_RENDERING])" by auto
  from sh consider
      "render_buffer_idx s = 0" "source_buffer_idx m = 1" "buffer_states s = [BUFFER_STATE_RENDERING, BUFFER_STATE_TRANSFERRING, BUFFER_STATE_IDLE]"
    | "render_buffer_idx s = 0" "source_buffer_idx m = 2" "buffer_states s = [BUFFER_STATE_RENDERING, BUFFER_STATE_IDLE, BUFFER_STATE_TRANSFERRING]"
    | "render_buffer_idx s = 1" "source_buffer_idx m = 0" "buffer_states s = [BUFFER_STATE_TRANSFERRING, BUFFER_STATE_RENDERING, BUFFER_STATE_IDLE]"
    | "render_buffer_idx s = 1" "source_buffer_idx m = 2" "buffer_states s = [BUFFER_STATE_IDLE, BUFFER_STATE_RENDERING, BUFFER_STATE_TRANSFERRING]"
    | "render_buffer_idx s = 2" "source_buffer_idx m = 0" "buffer_states s = [BUFFER_STATE_TRANSFERRING, BUFFER_STATE_IDLE, BUFFER_STATE_RENDERING]"
    | "render_buffer_idx s = 2" "source_buffer_idx m = 1" "buffer_states s = [BUFFER_STATE_IDLE, BUFFER_STATE_TRANSFERRING, BUFFER_STATE_RENDERING]"
    by blast
  then show ?thesis
    using assms(2)
    by cases
       (simp_all add: process_message_def Let_def job_done_def job_aborted_def clearDirty_def
          xQueueSend_def queue_depth_def pipeline_inv_def all_less_3)
qed

lemma inv_display_task_step:
  assumes "pipeline_inv s"
  shows "pipeline_inv (display_task_step s)"
proof (cases "display_in_progress s")
  case False
  then have "display_queue s = Some []" using assms by (simp add: pipeline_inv_def)
  then show ?thesis using assms by (simp add: display_task_step_def)
next
  case True
  from busy_shape[OF assms True] obtain m where q: "display_queue s = Some [m]" by blast
  then show ?thesis
    using inv_process_message[OF assms True q] by (simp add: display_task_step_def)
qed

lemma inv_wait_for_semaphore:
  assumes w: "wait_for_semaphore s = Some s'"
  shows "pipeline_inv s \<longrightarrow> pipeline_inv s'"
  by (rule wait_for_semaphore.raw_induct[OF _ w])
     (auto split: if_splits intro: inv_display_task_step)

lemma inv_waitForDisplayDone:
  assumes "pipeline_inv s" and "waitForDisplayDone s = Some s'"
  shows "pipeline_inv s'"
  using assms inv_wait_for_semaphore
  by (auto simp: waitForDisplayDone_def inv_sem split: if_splits)

lemma inv_dirty_ops:
  assumes "pipeline_inv s"
  shows "pipeline_inv (expand_dirty_rect x y w h s)"
    and "pipeline_inv (clearDirty s)"
    and "pipeline_inv (forceFullRedraw s)"
    and "pipeline_inv (enableDirtyRect enable s)"
  using assms
  by (simp_all add: pipeline_inv_def expand_dirty_rect_def Let_def clearDirty_def
      forceFullRedraw_def enableDirtyRect_def)

lemma reachable_inv: "reachable s \<Longrightarrow> pipeline_inv s"
proof (induction rule: reachable.induct)
  case (after_begin env d0 results s)
  then show ?case by (rule inv_begin)
next
  case (after_waitForDisplayDone s s')
  then show ?case using inv_waitForDisplayDone by blast
qed (simp_all add: inv_display inv_swapBuffers inv_display_task_step inv_dirty_ops)

subsection \<open>Buffer states, back-pressure and the single job in flight\<close>

lemma CHUNK_HEIGHT_eq: "CHUNK_HEIGHT = 32"
  by (simp add: CHUNK_HEIGHT_def SRAM_BUFFER_SIZE_def ST7735_WIDTH_def)

lemma MAX_CHUNKS_eq: "MAX_CHUNKS = 5"
  by (simp add: MAX_CHUNKS_def CHUNK_HEIGHT_eq ST7735_HEIGHT_def)

lemma example_begin_succeeds: "fst (TFT7735V_begin example_platform example_new)"
  by (simp add: TFT7735V_begin_def example_platform_def example_new_def TFT7735V_new_def
      Let_def init_framebuffer_def init_double_buffering_def)

lemma example_begun_reachable: "reachable example_begun"
proof -
  have "TFT7735V_begin example_platform
          (TFT7735V_new \<lparr>rect_x = 7, rect_y = 7, rect_w = 7, rect_h = 7, valid = False\<rparr> [])
        = (True, example_begun)"
    using example_begin_succeeds by (simp add: prod_eq_iff example_begun_def example_new_def)
  then show ?thesis by (rule reachable.after_begin)
qed

lemma example_begun_fields:
  "initialized example_begun"
  "framebuffer_enabled example_begun"
  "current_framebuffer example_begun = Some FB_A"
  "\<not> display_in_progress example_begun"
  "display_queue example_begun = Some []"
  "display_done_semaphore example_begun = Some True"
  "buffer_states example_begun = [BUFFER_STATE_RENDERING, BUFFER_STATE_IDLE, BUFFER_STATE_IDLE]"
  "render_buffer_idx example_begun = 0"
  "dirty_rect_enabled example_begun"
  "\<not> force_full_redraw example_begun"
  "dirty_rect example_begun = \<lparr>rect_x = 7, rect_y = 7, rect_w = 7, rect_h = 7, valid = False\<rparr>"
  "width example_begun = 128"
  "height example_begun = 160"
  "total_chunks example_begun = 5"
  "framebuffer_a example_begun = Some (replicate (ST7735_WIDTH * ST7735_HEIGHT) 0)"
  "framebuffer_b example_begun = Some (replicate (ST7735_WIDTH * ST7735_HEIGHT) 0)"
  "framebuffer_c example_begun = Some (replicate (ST7735_WIDTH * ST7735_HEIGHT) 0)"
  "sram_buffer_a example_begun = Some (map (\<lambda>i. 0) [0 ..< SRAM_BUFFER_SIZE div 2])"
  "sram_buffer_b example_begun = Some (map (\<lambda>i. 0) [0 ..< SRAM_BUFFER_SIZE div 2])"
  unfolding example_begun_def TFT7735V_begin_def example_platform_def example_new_def
      TFT7735V_new_def Let_def init_framebuffer_def init_double_buffering_def
  by (simp_all add: MAX_CHUNKS_eq) (simp_all add: ST7735_WIDTH_def ST7735_HEIGHT_def)

lemma init_sequence_ok:
  assumes "no_transmit_error s"
  shows "no_transmit_error (init_sequence s)"
  using assms
  by (simp add: init_sequence_def in_order_def write_command_ok write_data_ok)

lemma example_begun_no_error: "no_transmit_error example_begun"
proof -
  have "spi_results example_begun
      = spi_results (init_sequence (example_new\<lparr>spi_initialized := True\<rparr>))"
    unfolding example_begun_def TFT7735V_begin_def example_platform_def
      Let_def init_framebuffer_def init_double_buffering_def
    by (simp add: example_new_def TFT7735V_new_def)
  moreover have "no_transmit_error (init_sequence (example_new\<lparr>spi_initialized := True\<rparr>))"
    by (rule init_sequence_ok) (simp add: no_transmit_error_def example_new_def TFT7735V_new_def)
  ultimately show ?thesis by (simp add: no_transmit_error_def)
qed

text \<open>
  The buffer-state invariant I1 on the executions that never tear the driver down: in
  every state reached after a successful \<^verbatim>\<open>begin()\<close> on a fresh driver by calls of
  \<^verbatim>\<open>display\<close>, \<^verbatim>\<open>swapBuffers\<close>, \<^verbatim>\<open>waitForDisplayDone\<close> and the dirty rectangle
  functions and by iterations of the transfer worker, exactly one of the three buffers is
  \<open>RENDERING\<close>, at most one is \<open>TRANSFERRING\<close>, and the others are \<open>IDLE\<close>.
\<close>

theorem buffer_state_invariant:
  assumes "reachable s"
  shows "length (buffer_states s) = 3
       \<and> count_list (buffer_states s) BUFFER_STATE_RENDERING = 1
       \<and> count_list (buffer_states s) BUFFER_STATE_TRANSFERRING \<le> 1
       \<and> count_list (buffer_states s) BUFFER_STATE_IDLE
           = 2 - count_list (buffer_states s) BUFFER_STATE_TRANSFERRING"
proof (cases "display_in_progress s")
  case False
  from idle_shape[OF reachable_inv[OF assms] False] show ?thesis by auto
next
  case True
  from busy_shape[OF reachable_inv[OF assms] True] show ?thesis by auto
qed

lemma example_presenting_fields:
  "display_in_progress example_presenting"
  "initialized example_presenting"
  "framebuffer_enabled example_presenting"
  "current_framebuffer example_presenting = Some FB_B"
  "buffer_states example_presenting
     = [BUFFER_STATE_TRANSFERRING, BUFFER_STATE_RENDERING, BUFFER_STATE_IDLE]"
  "display_queue example_presenting
     = Some [\<lparr>chunk_idx = 0, is_last_chunk = False, source_buffer_idx = 0, use_dirty_rect = False,
              msg_dirty_rect = \<lparr>rect_x = 0, rect_y = 0, rect_w = 0, rect_h = 0, valid = False\<rparr>\<rparr>]"
  by (simp_all add: example_presenting_def display_def example_begun_fields Let_def
      find_idle_buffer_def xQueueSend_def queue_depth_def select_framebuffer_def
      swap_for_present_def first_message_def use_dirty_def)

theorem buffer_state_invariant_witness:
  "reachable example_presenting
   \<and> buffer_states example_presenting
       = [BUFFER_STATE_TRANSFERRING, BUFFER_STATE_RENDERING, BUFFER_STATE_IDLE]
   \<and> count_list (buffer_states example_presenting) BUFFER_STATE_RENDERING = 1
   \<and> count_list (buffer_states example_presenting) BUFFER_STATE_TRANSFERRING = 1
   \<and> count_list (buffer_states example_presenting) BUFFER_STATE_IDLE = 1"
proof -
  have r: "reachable example_presenting"
    unfolding example_presenting_def by (rule reachable.after_display[OF example_begun_reachable])
  show ?thesis
    using r buffer_state_invariant[OF r] by (simp add: example_presenting_fields)
qed

lemma swapped_fields:
  "initialized (swapBuffers example_begun)"
  "\<not> display_in_progress (swapBuffers example_begun)"
  "buffer_states (swapBuffers example_begun)
     = [BUFFER_STATE_IDLE, BUFFER_STATE_RENDERING, BUFFER_STATE_IDLE]"
  "render_buffer_idx (swapBuffers example_begun) = 1"
  by (simp_all add: swapBuffers_def Let_def example_begun_fields find_idle_buffer_def)

text \<open>
  Claim C1.  The claim asks for exactly one \<open>RENDERING\<close> buffer after every successful
  \<^verbatim>\<open>begin()\<close> and every public operation.  The code breaks it once the driver has been
  torn down and set up again: \<^verbatim>\<open>init_framebuffer\<close> marks buffer 0 as \<open>RENDERING\<close> without
  resetting the other tags or \<^verbatim>\<open>render_buffer_idx\<close>.  After
  \<^verbatim>\<open>begin(); swapBuffers(); end(); begin()\<close> the second \<^verbatim>\<open>begin()\<close> succeeds with two
  \<open>RENDERING\<close> buffers, and after
  \<^verbatim>\<open>begin(); swapBuffers(); disableFramebuffer(); enableFramebuffer(); display()\<close> two
  buffers are \<open>RENDERING\<close> and none is \<open>IDLE\<close>.
\<close>

theorem teardown_breaks_buffer_invariant:
  "map_option (\<lambda>s. (fst (TFT7735V_begin example_platform s),
                     buffer_states (snd (TFT7735V_begin example_platform s)),
                     render_buffer_idx (snd (TFT7735V_begin example_platform s))))
     (TFT7735V_end (swapBuffers example_begun))
   = Some (True, [BUFFER_STATE_RENDERING, BUFFER_STATE_RENDERING, BUFFER_STATE_IDLE], 1)
   \<and> buffer_states (snd (display (snd (enableFramebuffer example_platform
         (disableFramebuffer (swapBuffers example_begun))))))
     = [BUFFER_STATE_RENDERING, BUFFER_STATE_TRANSFERRING, BUFFER_STATE_RENDERING]"
proof
  show "map_option (\<lambda>s. (fst (TFT7735V_begin example_platform s),
                     buffer_states (snd (TFT7735V_begin example_platform s)),
                     render_buffer_idx (snd (TFT7735V_begin example_platform s))))
     (TFT7735V_end (swapBuffers example_begun))
   = Some (True, [BUFFER_STATE_RENDERING, BUFFER_STATE_RENDERING, BUFFER_STATE_IDLE], 1)"
    by (simp add: TFT7735V_end_def free_double_buffering_def free_framebuffer_def swapped_fields
        TFT7735V_begin_def Let_def init_framebuffer_def init_double_buffering_def
        example_platform_def)
  show "buffer_states (snd (display (snd (enableFramebuffer example_platform
         (disableFramebuffer (swapBuffers example_begun))))))
     = [BUFFER_STATE_RENDERING, BUFFER_STATE_TRANSFERRING, BUFFER_STATE_RENDERING]"
    by (simp add: enableFramebuffer_def disableFramebuffer_def free_framebuffer_def
        init_framebuffer_def init_double_buffering_def Let_def example_platform_def
        swapBuffers_def example_begun_fields find_idle_buffer_def select_framebuffer_def
        display_def swap_for_present_def first_message_def use_dirty_def xQueueSend_def
        queue_depth_def xSemaphoreTake_def)
qed

theorem teardown_breaks_buffer_invariant_witness:
  "\<not> pipeline_inv (snd (display (snd (enableFramebuffer example_platform
         (disableFramebuffer (swapBuffers example_begun))))))"
  using teardown_breaks_buffer_invariant by (simp add: pipeline_inv_def all_less_3)

text \<open>
  Claim C10.  A call of \<^verbatim>\<open>display()\<close> while \<^verbatim>\<open>display_in_progress\<close> is set returns
  without changing the state (buffer states, render target, dirty rectangle and job queue
  included) and does not start a present; and in every reachable state the job queue
  holds at most one message, which is there exactly while a present is in progress.
\<close>

theorem one_job_in_flight:
  "(display_in_progress s \<longrightarrow> snd (display s) = s \<and> fst (display s) \<noteq> STARTED)
   \<and> (reachable s \<longrightarrow>
        (\<exists>q. display_queue s = Some q \<and> length q \<le> 1 \<and> (display_in_progress s = (q \<noteq> []))))"
proof (intro conjI impI)
  assume "display_in_progress s"
  then show "snd (display s) = s" and "fst (display s) \<noteq> STARTED"
    by (simp_all add: display_def)
next
  assume "reachable s"
  then have "pipeline_inv s" by (rule reachable_inv)
  then show "\<exists>q. display_queue s = Some q \<and> length q \<le> 1 \<and> (display_in_progress s = (q \<noteq> []))"
    by (cases "display_in_progress s") (auto simp: pipeline_inv_def)
qed

theorem one_job_in_flight_witness:
  "display_in_progress example_presenting \<and> reachable example_presenting
   \<and> display example_presenting = (IN_PROGRESS, example_presenting)
   \<and> (\<exists>m. display_queue example_presenting = Some [m])"
proof -
  have r: "reachable example_presenting"
    unfolding example_presenting_def by (rule reachable.after_display[OF example_begun_reachable])
  have p: "display_in_progress example_presenting" by (rule example_presenting_fields)
  have "fst (display example_presenting) = IN_PROGRESS"
    using p by (simp add: display_def example_presenting_fields)
  then show ?thesis
    using r p one_job_in_flight[of example_presenting]
    by (simp add: prod_eq_iff example_presenting_fields)
qed

lemma find_idle_none:
  assumes "length bs = 3" and "BUFFER_STATE_IDLE \<notin> set bs"
  shows "find_idle_buffer bs = 255"
proof -
  obtain a b c where bs: "bs = [a, b, c]" using list3[OF assms(1)] by blast
  show ?thesis using assms(2) by (auto simp: bs find_idle_buffer_def)
qed

text \<open>
  Claim C9.  When no buffer is \<open>IDLE\<close>, \<^verbatim>\<open>display()\<close> does not start a present and
  leaves the whole state as it was (buffer states, render index, frame buffer pointer,
  dirty rectangle, completion flags, job queue); when the checks that precede the search
  pass, the exit taken is the one for "no idle buffer" (\<open>BUSY\<close>).
\<close>

theorem display_without_idle_buffer:
  assumes "length (buffer_states s) = 3" and "BUFFER_STATE_IDLE \<notin> set (buffer_states s)"
  shows "snd (display s) = s \<and> fst (display s) \<noteq> STARTED
       \<and> (display_guards_pass s \<longrightarrow> fst (display s) = BUSY)"
  using find_idle_none[OF assms]
  by (simp add: display_def display_guards_pass_def)

theorem display_without_idle_buffer_witness:
  "length (buffer_states example_no_idle) = 3
   \<and> BUFFER_STATE_IDLE \<notin> set (buffer_states example_no_idle)
   \<and> display_guards_pass example_no_idle
   \<and> display example_no_idle = (BUSY, example_no_idle)"
proof -
  have h1: "length (buffer_states example_no_idle) = 3"
    and h2: "BUFFER_STATE_IDLE \<notin> set (buffer_states example_no_idle)"
    by (simp_all add: example_no_idle_def)
  have g: "display_guards_pass example_no_idle"
    by (simp add: display_guards_pass_def example_no_idle_def example_begun_fields)
  show ?thesis
    using h1 h2 g display_without_idle_buffer[OF h1 h2]
    by (simp add: prod_eq_iff)
qed

subsection \<open>The worker processes a job chunk by chunk\<close>

lemma chunks_run_frame: "xfer_frame s (chunks_run msg n s)"
proof (induction n arbitrary: msg s)
  case 0
  show ?case by (simp add: xfer_frame_refl)
next
  case (Suc n)
  show ?case
    using xfer_frame_trans[OF transfer_chunk_frame Suc] by simp
qed

lemmas chunks_run_fields [simp] = xfer_frameD[OF chunks_run_frame]

lemma queue_reset:
  assumes "display_queue s = Some []"
  shows "s\<lparr>display_queue := Some []\<rparr> = s"
  using assms by (cases s) simp

lemma job_end_frame:
  "total_chunks s' = total_chunks s \<Longrightarrow> job_end msg s' = job_end msg s"
  by (simp add: job_end_def calculate_dirty_chunks_def Let_def cong: if_cong)

lemma process_last:
  assumes "is_last_chunk msg"
  shows "process_message msg s = job_done (source_buffer_idx msg) (transfer_chunk msg s)"
  using assms by (simp add: process_message_def Let_def)

lemma process_final:
  assumes "\<not> is_last_chunk msg" and "chunk_idx msg + 1 > job_end msg s"
    and "total_chunks s - 1 < total_chunks s"
  shows "process_message msg s = job_done (source_buffer_idx msg) (transfer_chunk msg s)"
proof -
  have e: "job_end msg (transfer_chunk msg s) = job_end msg s"
    by (rule job_end_frame) simp
  have full: "\<And>a::uint8_t. (total_chunks s \<le> a) = (total_chunks s - 1 < a)"
    using assms(3) by unat_arith
  show ?thesis
    using assms(1,2) e
    by (auto simp: process_message_def Let_def job_end_def full split: if_splits)
qed

lemma process_next:
  assumes "\<not> is_last_chunk msg" and "\<not> chunk_idx msg + 1 > job_end msg s"
    and "total_chunks s - 1 < total_chunks s" and "display_queue s = Some []"
  shows "process_message msg s =
           (transfer_chunk msg s)\<lparr>display_queue := Some [msg\<lparr>chunk_idx := chunk_idx msg + 1\<rparr>]\<rparr>"
proof -
  have e: "job_end msg (transfer_chunk msg s) = job_end msg s"
    by (rule job_end_frame) simp
  have full: "\<And>a::uint8_t. (total_chunks s \<le> a) = (total_chunks s - 1 < a)"
    using assms(3) by unat_arith
  have m: "\<lparr>chunk_idx = chunk_idx msg + 1, is_last_chunk = False,
            source_buffer_idx = source_buffer_idx msg, use_dirty_rect = use_dirty_rect msg,
            msg_dirty_rect = msg_dirty_rect msg\<rparr> = msg\<lparr>chunk_idx := chunk_idx msg + 1\<rparr>"
    using assms(1) by (cases msg) simp
  have q: "display_queue (transfer_chunk msg s) = Some []" using assms(4) by simp
  show ?thesis
    using assms(1,2) e
    by (auto simp: process_message_def Let_def job_end_def full m xQueueSend_empty[OF q]
        split: if_splits)
qed

lemma job_done_fields [simp]:
    "initialized (job_done i s) = initialized s"
    "spi_initialized (job_done i s) = spi_initialized s"
    "width (job_done i s) = width s"
    "height (job_done i s) = height s"
    "x_offset (job_done i s) = x_offset s"
    "y_offset (job_done i s) = y_offset s"
    "framebuffer_a (job_done i s) = framebuffer_a s"
    "framebuffer_b (job_done i s) = framebuffer_b s"
    "framebuffer_c (job_done i s) = framebuffer_c s"
    "current_framebuffer (job_done i s) = current_framebuffer s"
    "render_buffer_idx (job_done i s) = render_buffer_idx s"
    "transfer_buffer_idx (job_done i s) = transfer_buffer_idx s"
    "framebuffer_enabled (job_done i s) = framebuffer_enabled s"
    "sram_buffer_a (job_done i s) = sram_buffer_a s"
    "sram_buffer_b (job_done i s) = sram_buffer_b s"
    "current_sram_buffer (job_done i s) = current_sram_buffer s"
    "display_task_handle (job_done i s) = display_task_handle s"
    "display_queue (job_done i s) = display_queue s"
    "current_chunk (job_done i s) = current_chunk s"
    "total_chunks (job_done i s) = total_chunks s"
    "dirty_rect_enabled (job_done i s) = dirty_rect_enabled s"
    "spi_sent (job_done i s) = spi_sent s"
    "spi_results (job_done i s) = spi_results s"
    "buffer_states (job_done i s) = (buffer_states s)[unat i := BUFFER_STATE_IDLE]"
    "display_in_progress (job_done i s) = False"
    "display_done_flag (job_done i s) = True"
    "force_full_redraw (job_done i s) = False"
    "dirty_rect (job_done i s) = \<lparr>rect_x = 0, rect_y = 0, rect_w = 0, rect_h = 0, valid = False\<rparr>"
    "display_done_semaphore (job_done i s) = map_option (\<lambda>_. True) (display_done_semaphore s)"
  by (simp_all add: job_done_def clearDirty_def xSemaphoreGive_def split: option.splits)

lemma run_idle:
  assumes "display_queue s = Some []"
  shows "display_task_run n s = s"
  using assms by (induction n) (simp_all add: display_task_step_def)

lemma run_add: "display_task_run (a + b) s = display_task_run b (display_task_run a s)"
  by (induction a arbitrary: s) simp_all

lemma step_one:
  assumes "display_queue s = Some [msg]"
  shows "display_task_step s = process_message msg (s\<lparr>display_queue := Some []\<rparr>)"
  using assms by (simp add: display_task_step_def)

lemma job_end_next [simp]: "job_end (msg\<lparr>chunk_idx := c\<rparr>) s = job_end msg s"
  by (simp add: job_end_def)

lemma job_end_queue [simp]: "job_end msg (s\<lparr>display_queue := q\<rparr>) = job_end msg s"
  by (rule job_end_frame) simp

lemma run_chain:
  assumes "display_queue s = Some [msg]" and "\<not> is_last_chunk msg"
    and "total_chunks s - 1 < total_chunks s"
    and "unat (chunk_idx msg) + n = unat (job_end msg s)"
    and "unat (job_end msg s) < 255"
  shows "display_task_run (Suc n) s =
           job_done (source_buffer_idx msg)
             (chunks_run msg (Suc n) (s\<lparr>display_queue := Some []\<rparr>))"
  using assms
proof (induction n arbitrary: msg s)
  case 0
  let ?s0 = "s\<lparr>display_queue := Some []\<rparr>"
  have "unat (chunk_idx msg + 1) = unat (chunk_idx msg) + 1"
    using 0(4,5) by (simp add: unat_word_ariths)
  then have gt: "chunk_idx msg + 1 > job_end msg ?s0"
    using 0(4) by (simp add: word_less_nat_alt)
  have "process_message msg ?s0 = job_done (source_buffer_idx msg) (transfer_chunk msg ?s0)"
    using 0(2,3) gt by (intro process_final) simp_all
  then show ?case using 0(1) by (simp add: step_one)
next
  case (Suc n)
  let ?s0 = "s\<lparr>display_queue := Some []\<rparr>"
  let ?msg' = "msg\<lparr>chunk_idx := chunk_idx msg + 1\<rparr>"
  let ?s1 = "transfer_chunk msg ?s0"
  let ?s2 = "?s1\<lparr>display_queue := Some [?msg']\<rparr>"
  have u: "unat (chunk_idx msg + 1) = unat (chunk_idx msg) + 1"
    using Suc.prems(4,5) by (simp add: unat_word_ariths)
  then have ngt: "\<not> chunk_idx msg + 1 > job_end msg ?s0"
    using Suc.prems(4) by (simp add: word_less_nat_alt)
  have p: "process_message msg ?s0 = ?s2"
    using Suc.prems(2,3) ngt by (intro process_next) simp_all
  have st: "display_task_step s = ?s2" using Suc.prems(1) p by (simp add: step_one)
  have e2: "job_end msg ?s1 = job_end msg s"
    by (rule job_end_frame) simp
  have ih: "display_task_run (Suc n) ?s2 =
      job_done (source_buffer_idx ?msg') (chunks_run ?msg' (Suc n) (?s2\<lparr>display_queue := Some []\<rparr>))"
    using Suc.prems(2,3,4,5) u
    by (intro Suc.IH) (simp_all add: e2)
  have r: "?s2\<lparr>display_queue := Some []\<rparr> = ?s1"
    by (simp add: queue_reset)
  have "display_task_run (Suc (Suc n)) s = display_task_run (Suc n) ?s2"
    using st by simp
  also have "\<dots> = job_done (source_buffer_idx msg) (chunks_run ?msg' (Suc n) ?s1)"
    unfolding ih r by simp
  also have "\<dots> = job_done (source_buffer_idx msg) (chunks_run msg (Suc (Suc n)) ?s0)"
    by simp
  finally show ?case .
qed

lemma run_single:
  assumes "display_queue s = Some [msg]" and "is_last_chunk msg"
  shows "display_task_run (Suc 0) s =
           job_done (source_buffer_idx msg)
             (chunks_run msg (Suc 0) (s\<lparr>display_queue := Some []\<rparr>))"
  using assms by (simp add: step_one process_last)

lemma run_beyond:
  assumes "display_task_run n s = job_done i t" and "display_queue t = Some []" and "n \<le> m"
  shows "display_task_run m s = job_done i t"
proof -
  have "display_task_run (n + (m - n)) s = display_task_run (m - n) (job_done i t)"
    unfolding run_add assms(1) ..
  also have "\<dots> = job_done i t" using assms(2) by (intro run_idle) simp
  finally show ?thesis using assms(3) by simp
qed

subsection \<open>Planning a present and counting its bytes\<close>

lemma swap_for_present_fields [simp]:
    "initialized (swap_for_present n s) = initialized s"
    "spi_initialized (swap_for_present n s) = spi_initialized s"
    "width (swap_for_present n s) = width s"
    "height (swap_for_present n s) = height s"
    "x_offset (swap_for_present n s) = x_offset s"
    "y_offset (swap_for_present n s) = y_offset s"
    "framebuffer_a (swap_for_present n s) = framebuffer_a s"
    "framebuffer_b (swap_for_present n s) = framebuffer_b s"
    "framebuffer_c (swap_for_present n s) = framebuffer_c s"
    "framebuffer_enabled (swap_for_present n s) = framebuffer_enabled s"
    "sram_buffer_a (swap_for_present n s) = sram_buffer_a s"
    "sram_buffer_b (swap_for_present n s) = sram_buffer_b s"
    "current_sram_buffer (swap_for_present n s) = current_sram_buffer s"
    "display_task_handle (swap_for_present n s) = display_task_handle s"
    "display_queue (swap_for_present n s) = display_queue s"
    "total_chunks (swap_for_present n s) = total_chunks s"
    "dirty_rect (swap_for_present n s) = dirty_rect s"
    "dirty_rect_enabled (swap_for_present n s) = dirty_rect_enabled s"
    "force_full_redraw (swap_for_present n s) = force_full_redraw s"
    "spi_sent (swap_for_present n s) = spi_sent s"
    "spi_results (swap_for_present n s) = spi_results s"
    "buffer_states (swap_for_present n s) =
       (buffer_states s)[unat (render_buffer_idx s) := BUFFER_STATE_TRANSFERRING,
                         unat n := BUFFER_STATE_RENDERING]"
    "transfer_buffer_idx (swap_for_present n s) = render_buffer_idx s"
    "render_buffer_idx (swap_for_present n s) = n"
    "display_in_progress (swap_for_present n s) = True"
    "display_done_flag (swap_for_present n s) = False"
    "display_done_semaphore (swap_for_present n s)
       = map_option (\<lambda>_. False) (display_done_semaphore s)"
  by (simp_all add: swap_for_present_def Let_def xSemaphoreTake_def select_framebuffer_def
      split: option.splits)

lemma calculate_dirty_chunks_frame:
  "total_chunks s' = total_chunks s \<Longrightarrow> calculate_dirty_chunks d s' = calculate_dirty_chunks d s"
  by (simp add: calculate_dirty_chunks_def Let_def cong: if_cong)

lemma use_dirty_swap [simp]: "use_dirty (swap_for_present n s) = use_dirty s"
  by (simp add: use_dirty_def)

lemma first_message_swap:
  "first_message (swap_for_present n s) = (first_message s)\<lparr>source_buffer_idx := render_buffer_idx s\<rparr>"
  by (simp add: first_message_def Let_def calculate_dirty_chunks_frame[of "swap_for_present n s" s])

lemma display_ready:
  assumes "ready s"
  shows "display s =
           (STARTED,
            (swap_for_present (find_idle_buffer (buffer_states s)) s)
              \<lparr>display_queue :=
                 Some [(first_message s)\<lparr>source_buffer_idx := render_buffer_idx s\<rparr>]\<rparr>)"
proof -
  from assms have g: "framebuffer_enabled s" "current_framebuffer s \<noteq> None" "initialized s"
    "\<not> display_in_progress s" "display_queue s = Some []"
    "find_idle_buffer (buffer_states s) \<noteq> 255"
    by (simp_all add: ready_def buffers_allocated_def)
  let ?t = "swap_for_present (find_idle_buffer (buffer_states s)) s"
  have q: "display_queue ?t = Some []" using g(5) by simp
  show ?thesis
    using g by (simp add: display_def Let_def xQueueSend_empty[OF q] first_message_swap)
qed

lemma CHUNK_HEIGHT_word: "(word_of_nat CHUNK_HEIGHT :: uint16_t) = 32"
  by (simp add: CHUNK_HEIGHT_eq)

lemma dirty_plan:
  assumes v: "valid d" and on: "rect_on_screen d" and h: "1 \<le> unat (rect_h d)"
    and tc: "total_chunks s = word_of_nat MAX_CHUNKS"
  defines "st \<equiv> unat (rect_y d) div CHUNK_HEIGHT"
    and "e \<equiv> (unat (rect_y d) + unat (rect_h d) - 1) div CHUNK_HEIGHT"
  shows "calculate_dirty_chunks d s = (word_of_nat (e - st + 1), word_of_nat st, word_of_nat e)"
    and "st \<le> e" and "e < 5"
proof -
  have dy: "unat (rect_y d) + unat (rect_h d) \<le> 160"
    using on by (simp add: rect_on_screen_def ST7735_HEIGHT_def)
  show le: "st \<le> e" unfolding st_def e_def using h by (intro div_le_mono) simp
  show e5: "e < 5" unfolding e_def using dy h by (simp add: CHUNK_HEIGHT_eq)
  have st5: "st < 5" using le e5 by simp
  have tc5: "total_chunks s = 5" using tc by (simp add: MAX_CHUNKS_eq)
  have ust: "unat (word_of_nat st :: uint8_t) = st" using st5 by (simp add: unat_of_nat)
  have ue: "unat (word_of_nat e :: uint8_t) = e" using e5 by (simp add: unat_of_nat)
  have nst: "\<not> (5::uint8_t) \<le> word_of_nat st" using st5 by (simp add: word_le_nat_alt ust)
  have ne: "\<not> (5::uint8_t) \<le> word_of_nat e" using e5 by (simp add: word_le_nat_alt ue)
  have uy: "uint (rect_y d) = int (unat (rect_y d))" and uh: "uint (rect_h d) = int (unat (rect_h d))"
    by (rule uint_nat)+
  have "int (unat (rect_y d)) + int (unat (rect_h d)) - 1
      = int (unat (rect_y d) + unat (rect_h d) - 1)"
    using h by linarith
  then have "c_div (uint (rect_y d) + uint (rect_h d) - 1) (int CHUNK_HEIGHT)
      = int (unat (rect_y d) + unat (rect_h d) - 1) div int CHUNK_HEIGHT"
    unfolding c_div_def uy uh by simp
  then have cd: "c_div (uint (rect_y d) + uint (rect_h d) - 1) (int CHUNK_HEIGHT) = int e"
    unfolding e_def by (simp add: zdiv_int)
  have w: "(word_of_nat e :: uint8_t) - word_of_nat st + 1 = word_of_nat (e - st + 1)"
    using le by (simp add: of_nat_diff)
  show "calculate_dirty_chunks d s = (word_of_nat (e - st + 1), word_of_nat st, word_of_nat e)"
    unfolding calculate_dirty_chunks_def Let_def cd st_def[symmetric]
    using v nst ne w by (simp add: tc5)
qed


lemma transfer_chunk_full:
  assumes "\<not> (use_dirty_rect msg \<and> valid (msg_dirty_rect msg))"
  shows "transfer_chunk msg s = copy_chunk_and_send (chunk_idx msg) (source_buffer_idx msg) s"
  using assms by (auto simp: transfer_chunk_def)

lemma transfer_chunk_dirty:
  assumes "use_dirty_rect msg" and "valid (msg_dirty_rect msg)"
  shows "transfer_chunk msg s =
           copy_dirty_chunk_and_send (chunk_idx msg) (source_buffer_idx msg) (msg_dirty_rect msg) s"
  using assms by (simp add: transfer_chunk_def)

lemma unat_suc8:
  assumes "unat (k::uint8_t) < 5"
  shows "unat (k + 1) = Suc (unat k)"
  using assms by (simp add: unat_word_ariths)

lemma chunks_run_full:
  assumes "buffers_allocated s" and "no_transmit_error s"
    and "\<not> (use_dirty_rect msg \<and> valid (msg_dirty_rect msg))"
    and "unat (chunk_idx msg) + n \<le> 5" and "unat (source_buffer_idx msg) < 3"
  shows "buffers_allocated (chunks_run msg n s) \<and> no_transmit_error (chunks_run msg n s)
       \<and> pixel_bytes (spi_sent (chunks_run msg n s))
           = pixel_bytes (spi_sent s) + n * (2 * (ST7735_WIDTH * CHUNK_HEIGHT))
       \<and> total_bytes (spi_sent (chunks_run msg n s))
           = total_bytes (spi_sent s) + n * (11 + 2 * (ST7735_WIDTH * CHUNK_HEIGHT))"
  using assms
proof (induction n arbitrary: msg s)
  case 0
  then show ?case by simp
next
  case (Suc n)
  let ?msg' = "msg\<lparr>chunk_idx := chunk_idx msg + 1\<rparr>"
  let ?s1 = "transfer_chunk msg s"
  have k: "unat (chunk_idx msg) < 5" using Suc.prems(4) by simp
  have t: "?s1 = copy_chunk_and_send (chunk_idx msg) (source_buffer_idx msg) s"
    by (rule transfer_chunk_full[OF Suc.prems(3)])
  note c = copy_chunk_and_send_ok[OF Suc.prems(1,2) k Suc.prems(5), folded t]
  have ih: "buffers_allocated (chunks_run ?msg' n ?s1) \<and> no_transmit_error (chunks_run ?msg' n ?s1)
       \<and> pixel_bytes (spi_sent (chunks_run ?msg' n ?s1))
           = pixel_bytes (spi_sent ?s1) + n * (2 * (ST7735_WIDTH * CHUNK_HEIGHT))
       \<and> total_bytes (spi_sent (chunks_run ?msg' n ?s1))
           = total_bytes (spi_sent ?s1) + n * (11 + 2 * (ST7735_WIDTH * CHUNK_HEIGHT))"
    using c Suc.prems(3,4,5) unat_suc8[OF k] by (intro Suc.IH) simp_all
  show ?case using ih c by simp
qed

lemma chunks_run_dirty:
  assumes "buffers_allocated s" and "no_transmit_error s"
    and "use_dirty_rect msg" and "valid (msg_dirty_rect msg)"
    and "rect_on_screen (msg_dirty_rect msg)"
    and "unat (chunk_idx msg) + n \<le> 5" and "unat (source_buffer_idx msg) < 3"
  shows "buffers_allocated (chunks_run msg n s) \<and> no_transmit_error (chunks_run msg n s)
       \<and> pixel_bytes (spi_sent (chunks_run msg n s))
           = pixel_bytes (spi_sent s)
             + 2 * unat (rect_w (msg_dirty_rect msg))
               * (\<Sum>j = unat (chunk_idx msg) ..< unat (chunk_idx msg) + n.
                    rows_in_chunk (msg_dirty_rect msg) j)"
  using assms
proof (induction n arbitrary: msg s)
  case 0
  then show ?case by simp
next
  case (Suc n)
  let ?msg' = "msg\<lparr>chunk_idx := chunk_idx msg + 1\<rparr>"
  let ?s1 = "transfer_chunk msg s"
  let ?d = "msg_dirty_rect msg"
  let ?k = "unat (chunk_idx msg)"
  have k: "?k < 5" using Suc.prems(6) by simp
  have t: "?s1 = copy_dirty_chunk_and_send (chunk_idx msg) (source_buffer_idx msg) ?d s"
    by (rule transfer_chunk_dirty[OF Suc.prems(3,4)])
  note c = copy_dirty_chunk_and_send_ok[OF Suc.prems(1,2) k Suc.prems(7,5), folded t]
  have ih: "buffers_allocated (chunks_run ?msg' n ?s1) \<and> no_transmit_error (chunks_run ?msg' n ?s1)
       \<and> pixel_bytes (spi_sent (chunks_run ?msg' n ?s1))
           = pixel_bytes (spi_sent ?s1)
             + 2 * unat (rect_w (msg_dirty_rect ?msg'))
               * (\<Sum>j = unat (chunk_idx ?msg') ..< unat (chunk_idx ?msg') + n.
                    rows_in_chunk (msg_dirty_rect ?msg') j)"
    using c Suc.prems(3,4,5,6,7) unat_suc8[OF k] by (intro Suc.IH) simp_all
  have ih': "pixel_bytes (spi_sent (chunks_run ?msg' n ?s1))
           = pixel_bytes (spi_sent ?s1)
             + 2 * unat (rect_w ?d) * (\<Sum>j = Suc ?k ..< Suc ?k + n. rows_in_chunk ?d j)"
    using ih by (simp add: unat_suc8[OF k])
  have split: "(\<Sum>j = ?k ..< ?k + Suc n. rows_in_chunk ?d j)
      = rows_in_chunk ?d ?k + (\<Sum>j = Suc ?k ..< Suc ?k + n. rows_in_chunk ?d j)"
    by (simp add: sum.atLeast_Suc_lessThan)
  have "pixel_bytes (spi_sent (chunks_run msg (Suc n) s))
      = pixel_bytes (spi_sent s) + 2 * unat (rect_w ?d) * rows_in_chunk ?d ?k
        + 2 * unat (rect_w ?d) * (\<Sum>j = Suc ?k ..< Suc ?k + n. rows_in_chunk ?d j)"
    using ih' c by simp
  also have "\<dots> = pixel_bytes (spi_sent s)
        + 2 * unat (rect_w ?d) * (\<Sum>j = ?k ..< ?k + Suc n. rows_in_chunk ?d j)"
    unfolding split by (simp add: add_mult_distrib2)
  finally show ?case using ih by simp
qed

lemma rows_sum_upto:
  assumes "32 * st \<le> unat (rect_y d)" and "unat (rect_y d) < 32 * st + 32"
    and "st \<le> m"
  shows "(\<Sum>j = st ..< Suc m. rows_in_chunk d j)
       = min (unat (rect_y d) + unat (rect_h d)) (32 * m + 32) - unat (rect_y d)"
  using assms(3)
proof (induction m rule: dec_induct)
  case base
  show ?case using assms(1) by (simp add: rows_in_chunk_def CHUNK_HEIGHT_eq max_def)
next
  case (step m)
  have lt: "unat (rect_y d) < 32 * Suc m" using assms(2) step(1) by simp
  then have r: "rows_in_chunk d (Suc m)
      = min (unat (rect_y d) + unat (rect_h d)) (32 * Suc m + 32) - 32 * Suc m"
    by (simp add: rows_in_chunk_def CHUNK_HEIGHT_eq max_def)
  have "(\<Sum>j = st ..< Suc (Suc m). rows_in_chunk d j)
      = (\<Sum>j = st ..< Suc m. rows_in_chunk d j) + rows_in_chunk d (Suc m)"
    using step(1) by simp
  also have "\<dots> = (min (unat (rect_y d) + unat (rect_h d)) (32 * m + 32) - unat (rect_y d))
      + (min (unat (rect_y d) + unat (rect_h d)) (32 * Suc m + 32) - 32 * Suc m)"
    unfolding step.IH r ..
  also have "\<dots> = min (unat (rect_y d) + unat (rect_h d)) (32 * Suc m + 32) - unat (rect_y d)"
  proof (cases "unat (rect_y d) + unat (rect_h d) \<le> 32 * m + 32")
    case True
    then show ?thesis by simp
  next
    case False
    then have "min (unat (rect_y d) + unat (rect_h d)) (32 * m + 32) = 32 * m + 32" by simp
    moreover have "32 * Suc m \<le> min (unat (rect_y d) + unat (rect_h d)) (32 * Suc m + 32)"
      using False by simp
    ultimately show ?thesis using lt by simp
  qed
  finally show ?case .
qed

lemma rows_sum:
  assumes "1 \<le> unat (rect_h d)"
  defines "st \<equiv> unat (rect_y d) div CHUNK_HEIGHT"
    and "e \<equiv> (unat (rect_y d) + unat (rect_h d) - 1) div CHUNK_HEIGHT"
  shows "(\<Sum>j = st ..< st + (e - st + 1). rows_in_chunk d j) = unat (rect_h d)"
proof -
  have le: "st \<le> e" unfolding st_def e_def using assms(1) by (intro div_le_mono) simp
  have a: "32 * st \<le> unat (rect_y d)"
    unfolding st_def CHUNK_HEIGHT_eq by simp
  have b: "unat (rect_y d) < 32 * st + 32"
    unfolding st_def CHUNK_HEIGHT_eq
    using dividend_less_times_div[of 32 "unat (rect_y d)"] by simp
  have "unat (rect_y d) + unat (rect_h d) - 1 < 32 * e + 32"
    unfolding e_def CHUNK_HEIGHT_eq
    using dividend_less_times_div[of 32 "unat (rect_y d) + unat (rect_h d) - 1"] by simp
  then have c: "unat (rect_y d) + unat (rect_h d) \<le> 32 * e + 32"
    using assms(1) by simp
  have "st + (e - st + 1) = Suc e" using le by simp
  then show ?thesis
    using rows_sum_upto[OF a b le] c by (simp add: min_def)
qed

subsection \<open>A present from start to completion\<close>

lemma display_ready':
  assumes "ready s"
  shows "snd (display s) = (job_start s)\<lparr>display_queue := Some [job_message s]\<rparr>"
    and "fst (display s) = STARTED"
  using display_ready[OF assms] by (simp_all add: job_start_def job_message_def)

lemma job_start_queue:
  assumes "ready s"
  shows "display_queue (job_start s) = Some []"
  using assms by (simp add: job_start_def ready_def)

text \<open>The chunk plan of a valid dirty rectangle stays within the chunks of the screen.\<close>

lemma plan_range:
  assumes tc: "total_chunks s = 5" and v: "valid d"
    and pl: "calculate_dirty_chunks d s = (c, st, e)"
  shows "unat st < 5" and "unat e < 5" and "c = e - st + 1"
proof -
  have clamp: "\<And>a::uint8_t. unat (if 5 \<le> a then 4 else a) < 5"
    by (simp add: word_le_nat_alt not_le)
  from pl v have st: "st = (if 5 \<le> (word_of_nat (unat (rect_y d) div CHUNK_HEIGHT) :: uint8_t)
                            then 4 else word_of_nat (unat (rect_y d) div CHUNK_HEIGHT))"
    and e: "e = (if 5 \<le> (word_of_int (c_div (uint (rect_y d) + uint (rect_h d) - 1)
                                             (int CHUNK_HEIGHT)) :: uint8_t)
                 then 4 else word_of_int (c_div (uint (rect_y d) + uint (rect_h d) - 1)
                                             (int CHUNK_HEIGHT)))"
    and c: "c = e - st + 1"
    by (auto simp: calculate_dirty_chunks_def Let_def tc)
  show "unat st < 5" unfolding st by (rule clamp)
  show "unat e < 5" unfolding e by (rule clamp)
  show "c = e - st + 1" by (rule c)
qed

lemma run_short:
  assumes "display_queue s = Some [msg]" and "\<not> is_last_chunk msg"
    and "total_chunks s - 1 < total_chunks s"
    and "job_end msg s < chunk_idx msg + 1"
  shows "display_task_run (Suc 0) s =
           job_done (source_buffer_idx msg)
             (chunks_run msg (Suc 0) (s\<lparr>display_queue := Some []\<rparr>))"
proof -
  let ?s0 = "s\<lparr>display_queue := Some []\<rparr>"
  have "process_message msg ?s0 = job_done (source_buffer_idx msg) (transfer_chunk msg ?s0)"
    using assms(2,3,4) by (intro process_final) simp_all
  then show ?thesis using assms(1) by (simp add: step_one)
qed

lemma job_chunks_dirty:
  assumes "use_dirty s" and "calculate_dirty_chunks (dirty_rect s) s = (c, st, e)"
  shows "job_chunks s = (if st \<le> e then unat e - unat st + 1 else 1)"
  using assms by (simp add: job_chunks_def)

lemma job_chunks_le:
  assumes "ready s"
  shows "job_chunks s \<le> MAX_CHUNKS"
proof (cases "use_dirty s")
  case False
  then show ?thesis by (simp add: job_chunks_def)
next
  case True
  from assms(1) have tc: "total_chunks s = 5"
    by (simp add: ready_def buffers_allocated_def MAX_CHUNKS_eq)
  from True have v: "valid (dirty_rect s)" by (simp add: use_dirty_def)
  obtain c st e where pl: "calculate_dirty_chunks (dirty_rect s) s = (c, st, e)"
    by (cases "calculate_dirty_chunks (dirty_rect s) s") auto
  note p = plan_range[OF tc v pl]
  have "unat e - unat st + 1 \<le> 5" using p(2) by linarith
  then show ?thesis by (simp add: job_chunks_dirty[OF True pl] MAX_CHUNKS_eq)
qed

lemma present_run:
  assumes r: "ready s" and n: "MAX_CHUNKS \<le> n"
  shows "present n s =
           job_done (render_buffer_idx s) (chunks_run (job_message s) (job_chunks s) (job_start s))"
proof -
  let ?t = "job_start s" and ?m = "job_message s"
  let ?s' = "?t\<lparr>display_queue := Some [?m]\<rparr>"
  have q: "display_queue ?t = Some []" by (rule job_start_queue[OF r])
  have reset: "?s'\<lparr>display_queue := Some []\<rparr> = ?t" using q by (simp add: queue_reset)
  from r have tc: "total_chunks s = word_of_nat MAX_CHUNKS"
    by (simp add: ready_def buffers_allocated_def)
  then have tc5: "total_chunks s = 5" by (simp add: MAX_CHUNKS_eq)
  have tcs: "total_chunks ?s' = 5" using tc5 by (simp add: job_start_def)
  have src: "source_buffer_idx ?m = render_buffer_idx s" by (simp add: job_message_def)
  have run: "display_task_run (job_chunks s) ?s' =
      job_done (render_buffer_idx s) (chunks_run ?m (job_chunks s) ?t)"
  proof (cases "use_dirty s")
    case False
    then have m: "\<not> is_last_chunk ?m" "chunk_idx ?m = 0" "\<not> use_dirty_rect ?m"
      by (simp_all add: job_message_def first_message_def tc5)
    have je: "job_end ?m ?s' = 4" using m(3) tcs by (simp add: job_end_def)
    have "display_task_run (Suc 4) ?s' =
        job_done (source_buffer_idx ?m) (chunks_run ?m (Suc 4) (?s'\<lparr>display_queue := Some []\<rparr>))"
      using m je tcs by (intro run_chain) simp_all
    then show ?thesis
      unfolding reset src using False by (simp add: job_chunks_def MAX_CHUNKS_eq)
  next
    case True
    then have v: "valid (dirty_rect s)" by (simp add: use_dirty_def)
    obtain c st e where pl: "calculate_dirty_chunks (dirty_rect s) s = (c, st, e)"
      by (cases "calculate_dirty_chunks (dirty_rect s) s") auto
    note p = plan_range[OF tc5 v pl]
    note jc = job_chunks_dirty[OF True pl]
    have m: "chunk_idx ?m = st" "use_dirty_rect ?m" "msg_dirty_rect ?m = dirty_rect s"
      "is_last_chunk ?m = (c = 1)"
      using True by (simp_all add: job_message_def first_message_def pl)
    have last: "is_last_chunk ?m = (st = e)"
      unfolding m(4) p(3) by auto
    have je: "job_end ?m ?s' = e"
    proof -
      have "calculate_dirty_chunks (dirty_rect s) ?s' = calculate_dirty_chunks (dirty_rect s) s"
        by (rule calculate_dirty_chunks_frame) (simp add: job_start_def)
      then show ?thesis using m(2,3) v by (simp add: job_end_def pl)
    qed
    consider "st = e" | "st < e" | "e < st" by (metis linorder_neqE)
    then show ?thesis
    proof cases
      case 1
      then have "is_last_chunk ?m" using last by simp
      then have "display_task_run (Suc 0) ?s' =
          job_done (source_buffer_idx ?m) (chunks_run ?m (Suc 0) (?s'\<lparr>display_queue := Some []\<rparr>))"
        by (intro run_single) simp_all
      then show ?thesis unfolding reset src jc using 1 by simp
    next
      case 2
      then have nl: "\<not> is_last_chunk ?m" using last by simp
      from 2 have lt: "unat st < unat e" by (simp add: word_less_nat_alt)
      have "display_task_run (Suc (unat e - unat st)) ?s' =
          job_done (source_buffer_idx ?m)
            (chunks_run ?m (Suc (unat e - unat st)) (?s'\<lparr>display_queue := Some []\<rparr>))"
        using nl tcs p(1,2) je lt by (intro run_chain) (simp_all add: m(1))
      then show ?thesis unfolding reset src jc using 2 by simp
    next
      case 3
      then have nl: "\<not> is_last_chunk ?m" using last by auto
      have "unat (st + 1) = Suc (unat st)" by (rule unat_suc8[OF p(1)])
      then have gt: "e < st + 1" using 3 by (simp add: word_less_nat_alt)
      have "display_task_run (Suc 0) ?s' =
          job_done (source_buffer_idx ?m)
            (chunks_run ?m (Suc 0) (?s'\<lparr>display_queue := Some []\<rparr>))"
        using nl tcs gt je by (intro run_short) (simp_all add: m(1))
      then show ?thesis unfolding reset src jc using 3 by simp
    qed
  qed
  have qd: "display_queue (chunks_run ?m (job_chunks s) ?t) = Some []" using q by simp
  have le: "job_chunks s \<le> n" using job_chunks_le[OF r] n by simp
  show ?thesis
    unfolding present_def display_ready'(1)[OF r]
    by (rule run_beyond[OF run qd le])
qed

lemma find_idle_range:
  "find_idle_buffer bs = 0 \<or> find_idle_buffer bs = 1 \<or> find_idle_buffer bs = 2
   \<or> find_idle_buffer bs = 255"
  by (simp add: find_idle_buffer_def)

lemma find_idle_some:
  assumes "length bs = 3" and "i < 3" and "bs ! i = BUFFER_STATE_IDLE"
  shows "find_idle_buffer bs \<noteq> 255"
proof -
  obtain a b c where bs: "bs = [a, b, c]" using list3[OF assms(1)] by blast
  have "i = 0 \<or> i = 1 \<or> i = 2" using assms(2) by auto
  then show ?thesis using assms(3) by (auto simp: bs find_idle_buffer_def)
qed

lemma buffers_allocated_job_start [simp]:
  "buffers_allocated (job_start s) = buffers_allocated s"
  by (simp add: buffers_allocated_def job_start_def)

lemma buffers_allocated_job_done [simp]:
  "buffers_allocated (job_done i s) = buffers_allocated s"
  by (simp add: buffers_allocated_def)

lemma no_transmit_error_job_start [simp]:
  "no_transmit_error (job_start s) = no_transmit_error s"
  by (simp add: no_transmit_error_def job_start_def)

lemma no_transmit_error_job_done [simp]:
  "no_transmit_error (job_done i s) = no_transmit_error s"
  by (simp add: no_transmit_error_def)

text \<open>The state at the end of a present, whatever the serial device reports.\<close>

lemma present_final:
  assumes r: "ready s" and n: "MAX_CHUNKS \<le> n"
  shows "\<not> display_in_progress (present n s)"
    and "display_done_flag (present n s)"
    and "display_done_semaphore (present n s) = Some True"
    and "display_queue (present n s) = Some []"
    and "\<not> valid (dirty_rect (present n s))"
    and "\<not> force_full_redraw (present n s)"
    and "buffer_states (present n s) ! unat (render_buffer_idx s) = BUFFER_STATE_IDLE"
    and "length (buffer_states (present n s)) = 3"
    and "render_buffer_idx (present n s) = find_idle_buffer (buffer_states s)"
    and "framebuffer_a (present n s) = framebuffer_a s"
    and "framebuffer_b (present n s) = framebuffer_b s"
    and "framebuffer_c (present n s) = framebuffer_c s"
    and "dirty_rect_enabled (present n s) = dirty_rect_enabled s"
    and "framebuffer_enabled (present n s)"
    and "current_framebuffer (present n s) \<noteq> None"
proof -
  note p = present_run[OF r n]
  from r have g: "display_done_semaphore s \<noteq> None" "display_queue s = Some []"
    "length (buffer_states s) = 3" "unat (render_buffer_idx s) < 3" "framebuffer_enabled s"
    "find_idle_buffer (buffer_states s) \<noteq> 255" "buffers_allocated s"
    by (simp_all add: ready_def)
  show "\<not> display_in_progress (present n s)" "display_done_flag (present n s)"
    "\<not> valid (dirty_rect (present n s))" "\<not> force_full_redraw (present n s)"
    unfolding p by simp_all
  show "display_done_semaphore (present n s) = Some True"
    unfolding p using g(1) by (auto simp: job_start_def)
  show "display_queue (present n s) = Some []"
    unfolding p using g(2) by (simp add: job_start_def)
  show "length (buffer_states (present n s)) = 3"
    unfolding p using g(3) by (simp add: job_start_def)
  show "buffer_states (present n s) ! unat (render_buffer_idx s) = BUFFER_STATE_IDLE"
    unfolding p using g(3,4) by (simp add: job_start_def)
  show "render_buffer_idx (present n s) = find_idle_buffer (buffer_states s)"
    unfolding p by (simp add: job_start_def)
  show "framebuffer_a (present n s) = framebuffer_a s"
    "framebuffer_b (present n s) = framebuffer_b s"
    "framebuffer_c (present n s) = framebuffer_c s"
    "dirty_rect_enabled (present n s) = dirty_rect_enabled s"
    unfolding p by (simp_all add: job_start_def)
  show "framebuffer_enabled (present n s)"
    unfolding p using g(5) by (simp add: job_start_def)
  have fb: "framebuffer_a s \<noteq> None" "framebuffer_b s \<noteq> None" "framebuffer_c s \<noteq> None"
    using g(7) by (auto simp: buffers_allocated_def)
  show "current_framebuffer (present n s) \<noteq> None"
    unfolding p using g(6) fb find_idle_range[of "buffer_states s"]
    by (auto simp: job_start_def swap_for_present_def Let_def xSemaphoreTake_def
        select_framebuffer_def split: option.splits)
qed

text \<open>What a present transmits when the serial device reports no error.\<close>

lemma present_bytes:
  assumes r: "ready s" and dk: "dirty_ok s" and n: "MAX_CHUNKS \<le> n" and ne: "no_transmit_error s"
  shows "buffers_allocated (present n s)" and "no_transmit_error (present n s)"
    and "pixel_bytes (spi_sent (present n s))
         = pixel_bytes (spi_sent s)
           + (if use_dirty s then 2 * unat (rect_w (dirty_rect s)) * unat (rect_h (dirty_rect s))
              else 2 * ST7735_WIDTH * ST7735_HEIGHT)"
    and "\<not> use_dirty s \<Longrightarrow>
         total_bytes (spi_sent (present n s))
         = total_bytes (spi_sent s) + 2 * ST7735_WIDTH * ST7735_HEIGHT + 11 * MAX_CHUNKS"
proof -
  note p = present_run[OF r n]
  let ?t = "job_start s" and ?m = "job_message s"
  from r have als: "buffers_allocated s" and ri: "unat (render_buffer_idx s) < 3"
    by (simp_all add: ready_def)
  from als have tc: "total_chunks s = word_of_nat MAX_CHUNKS"
    by (simp add: buffers_allocated_def)
  then have tc5: "total_chunks s = 5" by (simp add: MAX_CHUNKS_eq)
  have al: "buffers_allocated ?t" using als by simp
  have net: "no_transmit_error ?t" using ne by simp
  have src: "unat (source_buffer_idx ?m) < 3" using ri by (simp add: job_message_def)
  have all: "buffers_allocated (present n s) \<and> no_transmit_error (present n s)
    \<and> pixel_bytes (spi_sent (present n s))
         = pixel_bytes (spi_sent s)
           + (if use_dirty s then 2 * unat (rect_w (dirty_rect s)) * unat (rect_h (dirty_rect s))
              else 2 * ST7735_WIDTH * ST7735_HEIGHT)
    \<and> (\<not> use_dirty s \<longrightarrow>
         total_bytes (spi_sent (present n s))
         = total_bytes (spi_sent s) + 2 * ST7735_WIDTH * ST7735_HEIGHT + 11 * MAX_CHUNKS)"
  proof (cases "use_dirty s")
    case False
    then have m: "chunk_idx ?m = 0" "\<not> (use_dirty_rect ?m \<and> valid (msg_dirty_rect ?m))"
      by (simp_all add: job_message_def first_message_def)
    have c: "unat (chunk_idx ?m) + job_chunks s \<le> 5"
      using False m(1) by (simp add: job_chunks_def MAX_CHUNKS_eq)
    note f = chunks_run_full[OF al net m(2) c src]
    show ?thesis
      unfolding p using f False
      by (simp add: job_chunks_def MAX_CHUNKS_eq CHUNK_HEIGHT_eq ST7735_WIDTH_def
          ST7735_HEIGHT_def job_start_def)
  next
    case True
    from True dk have d: "valid (dirty_rect s)" "rect_on_screen (dirty_rect s)"
      by (simp_all add: dirty_ok_def use_dirty_def)
    obtain c st e where pl: "calculate_dirty_chunks (dirty_rect s) s = (c, st, e)"
      by (cases "calculate_dirty_chunks (dirty_rect s) s") auto
    note pr = plan_range[OF tc5 d(1) pl]
    note jc = job_chunks_dirty[OF True pl]
    have m: "chunk_idx ?m = st" "use_dirty_rect ?m" "msg_dirty_rect ?m = dirty_rect s"
      using True by (simp_all add: job_message_def first_message_def pl)
    have c: "unat (chunk_idx ?m) + job_chunks s \<le> 5"
      using pr(1,2) by (simp add: m(1) jc word_le_nat_alt)
    have v: "valid (msg_dirty_rect ?m)" and on: "rect_on_screen (msg_dirty_rect ?m)"
      using d by (simp_all add: m(3))
    note f = chunks_run_dirty[OF al net m(2) v on c src]
    have sum: "(\<Sum>j = unat st ..< unat st + job_chunks s. rows_in_chunk (dirty_rect s) j)
               = unat (rect_h (dirty_rect s))"
    proof (cases "1 \<le> unat (rect_h (dirty_rect s))")
      case True
      define st' where "st' = unat (rect_y (dirty_rect s)) div CHUNK_HEIGHT"
      define e' where "e' = (unat (rect_y (dirty_rect s)) + unat (rect_h (dirty_rect s)) - 1)
                              div CHUNK_HEIGHT"
      note dp = dirty_plan[OF d True tc, folded st'_def e'_def]
      from dp(1) pl have w: "st = word_of_nat st'" "e = word_of_nat e'" by simp_all
      have ust: "unat st = st'" using dp(2,3) by (simp add: w unat_of_nat)
      have ue: "unat e = e'" using dp(3) by (simp add: w unat_of_nat)
      have le: "st \<le> e" using dp(2) by (simp add: word_le_nat_alt ust ue)
      have jc': "job_chunks s = e' - st' + 1" using le by (simp add: jc ust ue)
      show ?thesis
        unfolding jc' ust st'_def e'_def by (rule rows_sum[OF True])
    next
      case False
      then have h0: "unat (rect_h (dirty_rect s)) = 0" by simp
      have "\<And>j. rows_in_chunk (dirty_rect s) j = 0"
        by (simp add: rows_in_chunk_def h0)
      then show ?thesis by (simp add: h0)
    qed
    show ?thesis
      unfolding p using f True
      by (simp add: m(1,3) sum job_start_def)
  qed
  then show "buffers_allocated (present n s)" and "no_transmit_error (present n s)"
    and "pixel_bytes (spi_sent (present n s))
         = pixel_bytes (spi_sent s)
           + (if use_dirty s then 2 * unat (rect_w (dirty_rect s)) * unat (rect_h (dirty_rect s))
              else 2 * ST7735_WIDTH * ST7735_HEIGHT)"
    and "\<not> use_dirty s \<Longrightarrow>
         total_bytes (spi_sent (present n s))
         = total_bytes (spi_sent s) + 2 * ST7735_WIDTH * ST7735_HEIGHT + 11 * MAX_CHUNKS"
    by simp_all
qed

lemma present_ready:
  assumes r: "ready s" and dk: "dirty_ok s" and n: "MAX_CHUNKS \<le> n" and ne: "no_transmit_error s"
  shows "ready (present n s)" and "\<not> use_dirty (present n s)" and "dirty_ok (present n s)"
proof -
  note f = present_final[OF r n] and b = present_bytes[OF r dk n ne]
  from r have ri: "unat (render_buffer_idx s) < 3" and fi: "find_idle_buffer (buffer_states s) \<noteq> 255"
    by (simp_all add: ready_def)
  have idle: "find_idle_buffer (buffer_states (present n s)) \<noteq> 255"
    by (rule find_idle_some[OF f(8) ri f(7)])
  have rn: "unat (render_buffer_idx (present n s)) < 3"
    unfolding f(9) using fi find_idle_range[of "buffer_states s"] by auto
  show "ready (present n s)"
    using f b(1) idle rn by (simp add: ready_def)
  show nd: "\<not> use_dirty (present n s)" using f(5) by (simp add: use_dirty_def)
  show "dirty_ok (present n s)" using nd by (simp add: dirty_ok_def)
qed

subsection \<open>Bytes of a present and the state it leaves\<close>

lemma example_begun_ready: "ready example_begun"
  by (simp add: ready_def buffers_allocated_def example_begun_fields find_idle_buffer_def
      MAX_CHUNKS_eq)
     (simp add: ST7735_WIDTH_def ST7735_HEIGHT_def)

lemma ready_dirty_rect [simp]: "ready (s\<lparr>dirty_rect := d\<rparr>) = ready s"
  by (simp add: ready_def buffers_allocated_def)

lemma ready_force [simp]: "ready (s\<lparr>force_full_redraw := b\<rparr>) = ready s"
  by (simp add: ready_def buffers_allocated_def)

lemma no_transmit_error_dirty_rect [simp]:
  "no_transmit_error (s\<lparr>dirty_rect := d\<rparr>) = no_transmit_error s"
  "no_transmit_error (s\<lparr>force_full_redraw := b\<rparr>) = no_transmit_error s"
  by (simp_all add: no_transmit_error_def)

lemma example_marked_eq:
  "example_marked
   = example_begun\<lparr>dirty_rect :=
       \<lparr>rect_x = 10, rect_y = 20, rect_w = 20, rect_h = 30, valid = True\<rparr>\<rparr>"
  by (simp add: example_marked_def expand_dirty_rect_def example_begun_fields Let_def)

lemma example_forced_eq:
  "example_forced
   = example_begun\<lparr>force_full_redraw := True, dirty_rect :=
       \<lparr>rect_x = 0, rect_y = 0, rect_w = 1, rect_h = 1, valid = True\<rparr>\<rparr>"
  by (simp add: example_forced_def expand_dirty_rect_def forceFullRedraw_def
      example_begun_fields Let_def)

lemma example_marked_fields:
  "ready example_marked" "no_transmit_error example_marked" "use_dirty example_marked"
  "rect_on_screen (dirty_rect example_marked)"
  "dirty_rect example_marked
     = \<lparr>rect_x = 10, rect_y = 20, rect_w = 20, rect_h = 30, valid = True\<rparr>"
  "dirty_ok example_marked"
  by (simp_all add: example_marked_eq example_begun_ready example_begun_no_error use_dirty_def
      example_begun_fields rect_on_screen_def ST7735_WIDTH_def ST7735_HEIGHT_def dirty_ok_def)

lemma example_forced_fields:
  "ready example_forced" "no_transmit_error example_forced" "force_full_redraw example_forced"
  "valid (dirty_rect example_forced)" "dirty_rect_enabled example_forced"
  "dirty_ok example_forced"
  by (simp_all add: example_forced_eq example_begun_ready example_begun_no_error use_dirty_def
      example_begun_fields dirty_ok_def)

lemma example_begun_full:
  "\<not> use_dirty example_begun" "dirty_ok example_begun"
  by (simp_all add: use_dirty_def dirty_ok_def example_begun_fields)

text \<open>
  Claim C6.  A present in dirty mode (dirty tracking enabled, a valid dirty rectangle
  \<open>(dx, dy, dw, dh)\<close> that lies on the screen, \<^verbatim>\<open>force_full_redraw\<close> unset) on a
  serial device that reports no error runs to completion and transmits \<open>2 * dw * dh\<close>
  pixel bytes, counted over all pixel transactions of the job.
\<close>

theorem dirty_present_pixel_bytes:
  assumes "ready s" and "no_transmit_error s"
    and "dirty_rect_enabled s" and "valid (dirty_rect s)" and "\<not> force_full_redraw s"
    and "rect_on_screen (dirty_rect s)" and "MAX_CHUNKS \<le> n"
  shows "\<not> display_in_progress (present n s)
       \<and> pixel_bytes (spi_sent (present n s))
         = pixel_bytes (spi_sent s)
           + 2 * unat (rect_w (dirty_rect s)) * unat (rect_h (dirty_rect s))"
proof -
  have u: "use_dirty s" using assms(3-5) by (simp add: use_dirty_def)
  have dk: "dirty_ok s" using assms(6) by (simp add: dirty_ok_def)
  show ?thesis
    using present_final(1)[OF assms(1,7)]
      present_bytes(3)[OF assms(1) dk assms(7) assms(2)] u
    by simp
qed

theorem dirty_present_pixel_bytes_witness:
  "ready example_marked \<and> no_transmit_error example_marked
   \<and> dirty_rect_enabled example_marked \<and> \<not> force_full_redraw example_marked
   \<and> dirty_rect example_marked
       = \<lparr>rect_x = 10, rect_y = 20, rect_w = 20, rect_h = 30, valid = True\<rparr>
   \<and> \<not> display_in_progress (present 5 example_marked)
   \<and> pixel_bytes (spi_sent (present 5 example_marked))
       = pixel_bytes (spi_sent example_marked) + 1200"
proof -
  have h: "dirty_rect_enabled example_marked" "valid (dirty_rect example_marked)"
    "\<not> force_full_redraw example_marked" "MAX_CHUNKS \<le> 5"
    by (simp_all add: example_marked_eq example_begun_fields MAX_CHUNKS_eq)
  show ?thesis
    using dirty_present_pixel_bytes[OF example_marked_fields(1,2) h(1,2,3)
        example_marked_fields(4) h(4)] h example_marked_fields
    by simp
qed

text \<open>
  Claim C7 (amended).  A full-frame present on a serial device that reports no error runs
  to completion and transmits \<open>2 * W * H\<close> pixel bytes plus the address window
  (\<open>CASET\<close>, \<open>RASET\<close>, \<open>RAMWR\<close>: 3 command bytes and 8 argument bytes) once per chunk,
  that is \<open>11 * MAX_CHUNKS = 55\<close> overhead bytes for the whole present, not 11.
\<close>

theorem full_frame_present_bytes:
  assumes "ready s" and "no_transmit_error s" and "\<not> use_dirty s" and "MAX_CHUNKS \<le> n"
  shows "\<not> display_in_progress (present n s)
       \<and> pixel_bytes (spi_sent (present n s))
         = pixel_bytes (spi_sent s) + 2 * ST7735_WIDTH * ST7735_HEIGHT
       \<and> total_bytes (spi_sent (present n s))
         = total_bytes (spi_sent s) + 2 * ST7735_WIDTH * ST7735_HEIGHT + 11 * MAX_CHUNKS"
proof -
  have dk: "dirty_ok s" using assms(3) by (simp add: dirty_ok_def)
  show ?thesis
    using present_final(1)[OF assms(1,4)]
      present_bytes(3,4)[OF assms(1) dk assms(4) assms(2)] assms(3)
    by simp
qed

theorem full_frame_present_bytes_witness:
  "ready example_begun \<and> no_transmit_error example_begun \<and> \<not> use_dirty example_begun
   \<and> \<not> display_in_progress (present 5 example_begun)
   \<and> pixel_bytes (spi_sent (present 5 example_begun))
       = pixel_bytes (spi_sent example_begun) + 40960
   \<and> total_bytes (spi_sent (present 5 example_begun))
       = total_bytes (spi_sent example_begun) + 41015"
proof -
  have n: "MAX_CHUNKS \<le> 5" by (simp add: MAX_CHUNKS_eq)
  show ?thesis
    using full_frame_present_bytes[OF example_begun_ready example_begun_no_error
        example_begun_full(1) n] example_begun_ready example_begun_no_error example_begun_full(1)
    by (simp add: MAX_CHUNKS_eq ST7735_WIDTH_def ST7735_HEIGHT_def)
qed

theorem full_frame_overhead_counterexample:
  "ready example_begun \<and> no_transmit_error example_begun \<and> \<not> use_dirty example_begun
   \<and> \<not> display_in_progress (present 5 example_begun)
   \<and> total_bytes (spi_sent (present 5 example_begun))
       \<noteq> total_bytes (spi_sent example_begun) + (2 * ST7735_WIDTH * ST7735_HEIGHT + 11)"
proof -
  have n: "MAX_CHUNKS \<le> 5" by (simp add: MAX_CHUNKS_eq)
  show ?thesis
    using present_final(1)[OF example_begun_ready n]
      present_bytes(4)[OF example_begun_ready example_begun_full(2) n example_begun_no_error
        example_begun_full(1)]
      example_begun_ready example_begun_no_error example_begun_full(1)
    by (simp add: MAX_CHUNKS_eq ST7735_WIDTH_def ST7735_HEIGHT_def)
qed

text \<open>
  Claim C2 (amended).  The completion of a present leaves the dirty rectangle invalid, and
  a present that follows it with no rasterizer write in between is a full-frame present:
  it transmits \<open>2 * W * H\<close> pixel bytes, whether dirty tracking is enabled or not (no
  transmit error on either present).
\<close>

theorem second_present_is_full_frame:
  assumes "ready s" and "dirty_ok s" and "no_transmit_error s"
    and "MAX_CHUNKS \<le> n" and "MAX_CHUNKS \<le> m"
  shows "\<not> valid (dirty_rect (present n s))
       \<and> fst (display (present n s)) = STARTED
       \<and> \<not> display_in_progress (present m (present n s))
       \<and> dirty_rect_enabled (present n s) = dirty_rect_enabled s
       \<and> pixel_bytes (spi_sent (present m (present n s)))
         = pixel_bytes (spi_sent (present n s)) + 2 * ST7735_WIDTH * ST7735_HEIGHT"
proof -
  note f = present_final[OF assms(1,4)]
  note b = present_bytes[OF assms(1,2,4,3)]
  note r = present_ready[OF assms(1,2,4,3)]
  show ?thesis
    using f(5,13) display_ready'(2)[OF r(1)] present_final(1)[OF r(1) assms(5)]
      present_bytes(3)[OF r(1) r(3) assms(5) b(2)] r(2)
    by simp
qed

theorem second_present_is_full_frame_witness:
  "ready example_marked \<and> dirty_ok example_marked \<and> no_transmit_error example_marked
   \<and> \<not> valid (dirty_rect (present 5 example_marked))
   \<and> dirty_rect_enabled (present 5 example_marked)
   \<and> pixel_bytes (spi_sent (present 5 (present 5 example_marked)))
       = pixel_bytes (spi_sent (present 5 example_marked)) + 40960"
proof -
  have n: "MAX_CHUNKS \<le> 5" by (simp add: MAX_CHUNKS_eq)
  have e: "dirty_rect_enabled example_marked"
    by (simp add: example_marked_eq example_begun_fields)
  show ?thesis
    using second_present_is_full_frame[OF example_marked_fields(1,6,2) n n]
      example_marked_fields e
    by (simp add: ST7735_WIDTH_def ST7735_HEIGHT_def)
qed

theorem second_present_counterexample:
  "fst (display example_begun) = STARTED
   \<and> \<not> display_in_progress (present 5 example_begun)
   \<and> \<not> valid (dirty_rect (present 5 example_begun))
   \<and> dirty_rect_enabled (present 5 example_begun)
   \<and> fst (display (present 5 example_begun)) = STARTED
   \<and> \<not> display_in_progress (present 5 (present 5 example_begun))
   \<and> pixel_bytes (spi_sent (present 5 (present 5 example_begun)))
       = pixel_bytes (spi_sent (present 5 example_begun)) + 40960"
proof -
  have n: "MAX_CHUNKS \<le> 5" by (simp add: MAX_CHUNKS_eq)
  note r0 = example_begun_ready and d0 = example_begun_full(2) and e0 = example_begun_no_error
  note f = present_final[OF r0 n]
  note b = present_bytes[OF r0 d0 n e0]
  note r = present_ready[OF r0 d0 n e0]
  show ?thesis
    using display_ready'(2)[OF r0] f(1,5,13) display_ready'(2)[OF r(1)]
      present_final(1)[OF r(1) n] present_bytes(3)[OF r(1) r(3) n b(2)] r(2)
    by (simp add: example_begun_fields ST7735_WIDTH_def ST7735_HEIGHT_def)
qed

text \<open>
  Claim C4 (amended).  \<^verbatim>\<open>display()\<close> called with \<^verbatim>\<open>force_full_redraw\<close> set and a valid
  dirty rectangle starts a present and changes neither of the two; the completion of the
  transfer (\<^verbatim>\<open>clearDirty()\<close> in the worker) then clears \<^verbatim>\<open>dirty_rect.valid\<close> and also
  resets \<^verbatim>\<open>force_full_redraw\<close> to false.
\<close>

theorem force_full_redraw_cleared_at_completion:
  assumes "ready s" and "force_full_redraw s" and "valid (dirty_rect s)"
    and "MAX_CHUNKS \<le> n"
  shows "fst (display s) = STARTED
       \<and> dirty_rect (snd (display s)) = dirty_rect s
       \<and> force_full_redraw (snd (display s))
       \<and> \<not> display_in_progress (present n s)
       \<and> \<not> valid (dirty_rect (present n s))
       \<and> \<not> force_full_redraw (present n s)"
proof -
  note f = present_final[OF assms(1,4)]
  note d = display_ready'[OF assms(1)]
  show ?thesis
    using f(1,5,6) d(2) assms(2)
    by (simp add: d(1) job_start_def)
qed

theorem force_full_redraw_cleared_at_completion_witness:
  "ready example_forced \<and> force_full_redraw example_forced
   \<and> valid (dirty_rect example_forced)
   \<and> fst (display example_forced) = STARTED
   \<and> \<not> display_in_progress (present 5 example_forced)
   \<and> \<not> valid (dirty_rect (present 5 example_forced))
   \<and> \<not> force_full_redraw (present 5 example_forced)"
proof -
  have n: "MAX_CHUNKS \<le> 5" by (simp add: MAX_CHUNKS_eq)
  show ?thesis
    using force_full_redraw_cleared_at_completion[OF example_forced_fields(1,3,4) n]
      example_forced_fields
    by simp
qed

theorem force_full_redraw_counterexample:
  "force_full_redraw example_forced \<and> valid (dirty_rect example_forced)
   \<and> fst (display example_forced) = STARTED
   \<and> \<not> display_in_progress (present 5 example_forced)
   \<and> \<not> force_full_redraw (present 5 example_forced)"
proof -
  have n: "MAX_CHUNKS \<le> 5" by (simp add: MAX_CHUNKS_eq)
  show ?thesis
    using present_final(1,6)[OF example_forced_fields(1) n]
      display_ready'(2)[OF example_forced_fields(1)] example_forced_fields
    by simp
qed

subsection \<open>Transmit errors\<close>

lemma set_addr_window_script:
  assumes "spi_results s = address_window_then_error"
  shows "spi_results (set_addr_window x0 y0 x1 y1 s) = [False]"
    and "pixel_bytes (spi_sent (set_addr_window x0 y0 x1 y1 s)) = pixel_bytes (spi_sent s)"
  using assms
  by (simp_all add: set_addr_window_def Let_def in_order_def write_command_def write_data_def
      spi_device_polling_transmit_def address_window_then_error_def pixel_bytes_append)

lemma send_chunk_loop_error:
  assumes "spi_results s = False # rest" and "0 < tp"
  shows "fst (send_chunk_loop tp 0 buf s) = bswap_region 0 (min tp spi_chunk_size) buf"
    and "spi_results (snd (send_chunk_loop tp 0 buf s)) = rest"
    and "spi_sent (snd (send_chunk_loop tp 0 buf s)) = spi_sent s"
  using assms
  by (subst send_chunk_loop.simps;
      simp add: spi_device_polling_transmit_def Let_def min_def)+


lemma sram_get_set: "sram_get r (sram_set r b s) = Some b"
  by (cases r) (simp_all add: sram_get_def sram_set_def)

text \<open>The full-frame send of a chunk when the first pixel transaction fails.\<close>

lemma copy_chunk_and_send_error:
  assumes al: "buffers_allocated s" and k: "unat k < 5"
    and script: "spi_results s = address_window_then_error"
    and src: "source_framebuffer i s = Some src"
    and dst: "sram_get (target_buffer k) s = Some dst"
  shows "sram_get (target_buffer k) (copy_chunk_and_send k i s)
         = Some (bswap_region 0 2048 (memcpy dst src (4096 * unat k) 4096))"
proof -
  have ini: "initialized s" and w: "width s = word_of_nat ST7735_WIDTH"
    and h: "height s = word_of_nat ST7735_HEIGHT"
    using al by (simp_all add: buffers_allocated_def)
  note g = chunk_geometry[OF k h]
  define ach where "ach = chunk_end_y k s - chunk_start_y k"
  have uach: "unat ach = 32" unfolding ach_def by (rule g(3))
  have uw: "unat (width s) = 128" by (simp add: w ST7735_WIDTH_def)
  define n where "n = unat (width s) * unat ach"
  have n: "n = 4096" by (simp add: n_def uw uach)
  define copied where "copied = memcpy dst src (unat (chunk_start_y k) * unat (width s)) n"
  have copied: "copied = memcpy dst src (4096 * unat k) 4096"
    by (simp add: copied_def g(1) uw n)
  define s0 where "s0 = sram_set (target_buffer k) copied s"
  define s1 where "s1 = set_addr_window 0 (chunk_start_y k) (width s0 - 1)
                          (chunk_start_y k + ach - 1) s0"
  define r where "r = send_chunk_loop n 0 copied s1"
  have sc0: "spi_results s0 = address_window_then_error"
    by (simp add: s0_def sram_set_spi script)
  have sc1: "spi_results s1 = False # []"
    unfolding s1_def by (simp add: set_addr_window_script(1)[OF sc0])
  have loop: "fst r = bswap_region 0 2048 copied"
    unfolding r_def using send_chunk_loop_error(1)[OF sc1, of n copied]
    by (simp add: n spi_chunk_size_def)
  have send: "send_chunk_to_display copied (ucast k) ach s0 = r"
    unfolding send_chunk_to_display_def Let_def r_def s1_def n_def
    by (simp add: s0_def sram_set_spi ini chunk_start_y_def)
  have res: "copy_chunk_and_send k i s = sram_set (target_buffer k) (fst r) (snd r)"
    unfolding copy_chunk_and_send_def
    by (simp add: ini src dst Let_def ach_def[symmetric] n_def[symmetric] copied_def[symmetric]
        s0_def[symmetric] send)
  show ?thesis
    unfolding res by (simp add: sram_get_set loop copied)
qed

lemma example_filled_fields:
  "buffers_allocated example_filled"
  "spi_results example_filled = address_window_then_error"
  "source_framebuffer 0 example_filled = Some (replicate (ST7735_WIDTH * ST7735_HEIGHT) 0x00FF)"
  "sram_get (target_buffer 0) example_filled
     = Some (map (\<lambda>i. 0) [0 ..< SRAM_BUFFER_SIZE div 2])"
proof -
  have "buffers_allocated example_begun" using example_begun_ready by (simp add: ready_def)
  then show "buffers_allocated example_filled"
    by (simp add: buffers_allocated_def example_filled_def)
  show "spi_results example_filled = address_window_then_error"
    by (simp add: example_filled_def)
  show "source_framebuffer 0 example_filled
        = Some (replicate (ST7735_WIDTH * ST7735_HEIGHT) 0x00FF)"
    by (simp add: example_filled_def source_framebuffer_def)
  show "sram_get (target_buffer 0) example_filled
     = Some (map (\<lambda>i. 0) [0 ..< SRAM_BUFFER_SIZE div 2])"
    by (simp add: example_filled_def sram_get_def target_buffer_def example_begun_fields)
qed

lemma memcpy_whole:
  assumes "length dst = n" and "off + n \<le> m"
  shows "memcpy dst (replicate m v) off n = replicate n v"
  using assms by (simp add: memcpy_def min_def)

lemma bswap_region_replicate:
  "bswap_region 0 n (replicate (n + m) v) = replicate n (bswap16 v) @ replicate m v"
  by (simp add: bswap_region_def min_def)

text \<open>
  Claim C8.  The claim holds except on the error path of the full-frame send.  No chunk
  send writes to a source frame buffer (\<open>copy_chunk_and_send_frame\<close>,
  \<open>copy_dirty_chunk_and_send_frame\<close>); the dirty-mode send hands the bounce buffer back as
  it received it on every path, the transmit error included (\<open>send_dirty_rows_buffer\<close>);
  the full-frame send does so when no transaction fails (\<open>send_chunk_loop_ok\<close>).  When a
  pixel transaction fails, \<^verbatim>\<open>send_chunk_to_display\<close> returns with the region still
  byte-swapped.  Chunk 0 of a frame buffer filled with \<open>0x00FF\<close>, sent while the first
  pixel transaction fails: the source frame buffer is unchanged, and the first 2048 pixels
  of the bounce buffer are left as \<open>0xFF00\<close>.
\<close>

theorem full_frame_error_leaves_bounce_buffer_swapped:
  "source_framebuffer 0 example_filled = Some (replicate (ST7735_WIDTH * ST7735_HEIGHT) 0x00FF)
   \<and> source_framebuffer 0 (copy_chunk_and_send 0 0 example_filled)
       = source_framebuffer 0 example_filled
   \<and> sram_get (target_buffer 0) (copy_chunk_and_send 0 0 example_filled)
       = Some (replicate 2048 0xFF00 @ replicate 2048 0x00FF)"
proof -
  have k: "unat (0::uint8_t) < 5" by simp
  have m: "memcpy (map (\<lambda>i. 0) [0 ..< SRAM_BUFFER_SIZE div 2])
             (replicate (ST7735_WIDTH * ST7735_HEIGHT) 0x00FF) 0 4096
           = replicate 4096 (0x00FF :: uint16_t)"
    by (subst memcpy_whole)
       (simp_all add: SRAM_BUFFER_SIZE_def ST7735_WIDTH_def ST7735_HEIGHT_def)
  have b: "bswap16 0x00FF = 0xFF00" by (simp add: bswap16_def)
  have sw: "bswap_region 0 2048 (replicate 4096 (0x00FF :: uint16_t))
            = replicate 2048 0xFF00 @ replicate 2048 0x00FF"
    using bswap_region_replicate[of 2048 2048 "0x00FF"] by (simp add: b)
  have f: "xfer_frame example_filled (copy_chunk_and_send 0 0 example_filled)"
    by (rule copy_chunk_and_send_frame)
  have "source_framebuffer 0 (copy_chunk_and_send 0 0 example_filled)
       = source_framebuffer 0 example_filled"
    using f by (simp add: source_framebuffer_def xfer_frame_def)
  then show ?thesis
    using copy_chunk_and_send_error[OF example_filled_fields(1) k example_filled_fields(2,3,4)]
    by (simp add: example_filled_fields(3) m sw)
qed

theorem full_frame_error_leaves_bounce_buffer_swapped_witness:
  "sram_get (target_buffer 0) (copy_chunk_and_send 0 0 example_filled)
   \<noteq> Some (take 4096 (replicate (ST7735_WIDTH * ST7735_HEIGHT) 0x00FF))"
proof -
  have "take 4096 (replicate (ST7735_WIDTH * ST7735_HEIGHT) (0x00FF :: uint16_t))
        = replicate 2048 0x00FF @ replicate 2048 0x00FF"
    by (simp add: ST7735_WIDTH_def ST7735_HEIGHT_def flip: replicate_add)
  then show ?thesis
    using full_frame_error_leaves_bounce_buffer_swapped by simp
qed


lemma ready_spi_results [simp]: "ready (s\<lparr>spi_results := r\<rparr>) = ready s"
  by (simp add: ready_def buffers_allocated_def)

lemma spi_job_start [simp]:
  "spi_results (job_start s) = spi_results s"
  "spi_sent (job_start s) = spi_sent s"
  by (simp_all add: job_start_def)






end
